theory Spec2Isabelle
  imports Main "HOL-Library.Sublist"
begin

section \<open>JavaScript values\<close>

subsection \<open>Numbers\<close>

text \<open>
  The balances are JavaScript numbers. The functions of \<^verbatim>\<open>src/lib/sodex-api.ts\<close> are
  modelled over an arbitrary type \<open>'n\<close> of numbers that carries \<open>0\<close>, \<open>+\<close>, \<open>*\<close> and \<open><\<close> as
  uninterpreted operations (the syntactic classes \<open>zero\<close>, \<open>plus\<close>, \<open>times\<close>, \<open>ord\<close>, which
  have no laws), and \<^verbatim>\<open>parseFloat\<close> is a parameter \<open>pf :: string \<Rightarrow> 'n\<close>. Whatever is proved
  holds for every arithmetic, the one of IEEE doubles included; nothing is proved from
  laws that doubles do not have.

  To run the model on concrete inputs, \<open>number\<close> is the fragment of the JavaScript numbers
  made of \<^verbatim>\<open>NaN\<close> and the integers, where the operations are exact (as they are on doubles
  below \<open>2^53\<close>), a comparison with \<^verbatim>\<open>NaN\<close> is false and an operation on \<^verbatim>\<open>NaN\<close> gives
  \<^verbatim>\<open>NaN\<close>. \<open>parseFloat_digits\<close> is \<^verbatim>\<open>parseFloat\<close> on the strings it is applied to below: the
  empty string, which parses to \<^verbatim>\<open>NaN\<close>, and the strings of up to fifteen decimal digits,
  which parse to the integer they write.
\<close>

datatype number = NaN | Fin int

instantiation number :: "{zero,plus,times,ord}"
begin

definition zero_number :: number where
  "zero_number = Fin 0"

fun plus_number :: "number \<Rightarrow> number \<Rightarrow> number" where
  "plus_number (Fin a) (Fin b) = Fin (a + b)"
| "plus_number _ _ = NaN"

fun times_number :: "number \<Rightarrow> number \<Rightarrow> number" where
  "times_number (Fin a) (Fin b) = Fin (a * b)"
| "times_number _ _ = NaN"

fun less_number :: "number \<Rightarrow> number \<Rightarrow> bool" where
  "less_number (Fin a) (Fin b) = (a < b)"
| "less_number _ _ = False"

fun less_eq_number :: "number \<Rightarrow> number \<Rightarrow> bool" where
  "less_eq_number (Fin a) (Fin b) = (a \<le> b)"
| "less_eq_number _ _ = False"

instance ..

end

definition parseFloat_digits :: "string \<Rightarrow> number" where
  "parseFloat_digits str =
     (let ds = takeWhile (\<lambda>c. c \<in> set ''0123456789'') str
      in if ds = [] then NaN
         else Fin (foldl (\<lambda>a c. 10 * a + (of_char c - 48)) 0 ds))"

subsection \<open>Strings and optional values\<close>

text \<open>
  A value that may be \<^verbatim>\<open>undefined\<close> is an \<open>option\<close>. \<^verbatim>\<open>x || d\<close> on such a string yields \<open>d\<close>
  when \<open>x\<close> is \<^verbatim>\<open>undefined\<close> or the empty string, the two falsy cases, and \<open>x\<close> otherwise;
  \<^verbatim>\<open>if (x)\<close> and \<^verbatim>\<open>!x\<close> test the same. \<^verbatim>\<open>xs[0]\<close> is \<^verbatim>\<open>undefined\<close> on an empty array.
  \<^verbatim>\<open>str.split('-')[0]\<close> is the part of \<open>str\<close> before its first dash, all of \<open>str\<close> when it
  has none.
\<close>

definition truthy :: "string option \<Rightarrow> bool" where
  "truthy x = (case x of None \<Rightarrow> False | Some str \<Rightarrow> str \<noteq> [])"

definition or_string :: "string option \<Rightarrow> string \<Rightarrow> string" where
  "or_string x d = (case x of None \<Rightarrow> d | Some str \<Rightarrow> if str = [] then d else str)"

definition first_entry :: "'a list \<Rightarrow> 'a option" where
  "first_entry xs = (case xs of [] \<Rightarrow> None | x # _ \<Rightarrow> Some x)"

definition before_dash :: "string \<Rightarrow> string" where
  "before_dash str = takeWhile (\<lambda>c. c \<noteq> CHR ''-'') str"

section \<open>Token names\<close>

text \<open>
  \<^verbatim>\<open>src/lib/sodex-api.ts\<close>, \<^verbatim>\<open>normalizeTokenName\<close>: a JavaScript string is modelled as a
  \<^typ>\<open>string\<close>. \<^verbatim>\<open>coin.startsWith('v')\<close> is \<^term>\<open>prefix ''v'' coin\<close> and
  \<^verbatim>\<open>coin.slice(1)\<close> drops the first character.
\<close>

definition normalizeTokenName :: "string \<Rightarrow> string" where
  "normalizeTokenName coin =
     (let normalized = (if prefix ''v'' coin then drop 1 coin else coin)
      in if normalized = ''SOSO'' \<or> normalized = ''WSOSO'' then ''SOSO''
         else if normalized = ''MAG7.ssi'' then ''MAG7''
         else if normalized = ''USDC'' then ''USDC''
         else normalized)"

text \<open>
  The normalization policy in the words of the specification: strip a single leading
  \<^verbatim>\<open>v\<close>, then look the stripped name up in the alias table; a name with no alias is kept.
\<close>

fun strip_leading_v :: "string \<Rightarrow> string" where
  "strip_leading_v [] = []"
| "strip_leading_v (c # cs) = (if c = CHR ''v'' then cs else c # cs)"

definition token_aliases :: "(string \<times> string) list" where
  "token_aliases =
     [(''SOSO'', ''SOSO''), (''WSOSO'', ''SOSO''), (''MAG7.ssi'', ''MAG7''), (''USDC'', ''USDC'')]"

definition normalize_policy :: "string \<Rightarrow> string" where
  "normalize_policy coin =
     (let stripped = strip_leading_v coin
      in case map_of token_aliases stripped of Some canonical \<Rightarrow> canonical | None \<Rightarrow> stripped)"

section \<open>Upstream requests\<close>

text \<open>
  \<^verbatim>\<open>await fetch(url)\<close> either rejects (the request could not be made) or yields a response
  with its \<^verbatim>\<open>ok\<close> flag and \<^verbatim>\<open>statusText\<close>; \<^verbatim>\<open>await response.json()\<close> either rejects (the body
  is not JSON) or yields the parsed body. A thrown value is an \<open>error\<close>, and a function that
  may throw returns \<open>error + 'a\<close> with the thrown value on the left.
\<close>

datatype error =
    Error string  \<comment> \<open>\<^verbatim>\<open>new Error(message)\<close>\<close>
  | BalanceDataError int int
      \<comment> \<open>\<^verbatim>\<open>new Error(`Failed to fetch balance data: futures code=..., spot code=...`)\<close>\<close>
  | NetworkFailure  \<comment> \<open>the rejection of \<^verbatim>\<open>fetch\<close>\<close>
  | InvalidJson  \<comment> \<open>the rejection of \<^verbatim>\<open>response.json()\<close>\<close>

record 'a Response =
  ok :: bool
  statusText :: string
  json :: "error + 'a"

type_synonym 'a fetched = "error + 'a Response"

text \<open>
  The response interfaces all have the fields \<^verbatim>\<open>code\<close> and \<^verbatim>\<open>data\<close>; \<^verbatim>\<open>PositionsResponse\<close> adds
  \<^verbatim>\<open>message\<close> and \<^verbatim>\<open>next_cursor\<close>. Where two interfaces of the source share a field name, the
  record fields carry the initials of their interface. The open positions of an account
  and the items of a positions page are passed through untouched, so their types are
  parameters (\<open>'pos\<close>, \<open>'p\<close>).
\<close>

record 'd ApiResponse =
  code :: int
  data :: 'd

record 'p PositionsResponse = "('p list option) ApiResponse" +
  message :: string
  next_cursor :: "string option"

record BalanceData =
  bd_coin :: string
  walletBalance :: string
  openOrderMarginFrozen :: string
  bd_availableBalance :: string

record 'pos AccountDetailsData =
  ad_positions :: "'pos list"
  balances :: "BalanceData list"
  isolatedMargin :: string
  crossMargin :: string
  availableMarginForIsolated :: string
  availableMarginForCross :: string

record SpotBalance =
  coin :: string
  balance :: string
  availableBalance :: string

record 'n SpotBalanceData =
  sd_spotBalance :: "SpotBalance list"
  sd_totalUsdtAmount :: 'n

record MarkPrice =
  mp_s :: string
  mp_p :: string
  mp_t :: int

record FallbackMarkPrice =
  symbol :: string
  markPrice :: string

record 'n TotalBalance =
  spotBalance :: 'n
  futuresBalance :: 'n
  totalBalance :: 'n

text \<open>
  \<^verbatim>\<open>cacheManager.deduplicate(cacheKey, producer)\<close> hands its caller the outcome of one run of
  the producer registered under the key: the run it starts, the run in flight that it
  joins, or the stored value of an earlier successful run. Each function below is that
  run, as a function of the reply the run received from its endpoint. The cache itself is
  modelled in the section on the deduplicating cache.
\<close>

subsection \<open>Positions\<close>

definition fetchPositions ::
  "(string option \<Rightarrow> 'p PositionsResponse fetched) \<Rightarrow> string option
     \<Rightarrow> error + ('p list \<times> string option)" where
  "fetchPositions endpoint cursor =
     (case endpoint (if truthy cursor then cursor else None) of
        Inl rejection \<Rightarrow> Inl rejection
      | Inr response \<Rightarrow>
          if \<not> ok response
          then Inl (Error (''Failed to fetch positions: '' @ statusText response))
          else (case json response of
                  Inl rejection \<Rightarrow> Inl rejection
                | Inr d \<Rightarrow>
                    if code d \<noteq> 0 then Inl (Error (''API error: '' @ message d))
                    else Inr (case data d of None \<Rightarrow> [] | Some ps \<Rightarrow> ps, next_cursor d)))"

text \<open>
  \<^verbatim>\<open>fetchAllPositions\<close>: the \<^verbatim>\<open>while (true)\<close> loop. The account and the limit are the same
  in every request of a call, so a request is told by its cursor parameter: \<open>endpoint n c\<close>
  is the reply of the positions endpoint to the request number \<open>n\<close> when its cursor
  parameter is \<open>c\<close> (\<open>None\<close> when the URL has none), and the endpoint may answer differently
  from one request to the next. The loop carries the number of requests made so far and
  returns it with its result; a loop that never ends has the value \<open>None\<close>.
\<close>

partial_function (option) fetchAllPositions_loop ::
  "(nat \<Rightarrow> string option \<Rightarrow> 'p PositionsResponse fetched) \<Rightarrow> nat \<Rightarrow> 'p list \<Rightarrow> string option
     \<Rightarrow> ((error + 'p list) \<times> nat) option" where
  "fetchAllPositions_loop endpoint n allPositions cursor =
     (case fetchPositions (endpoint n) cursor of
        Inl e \<Rightarrow> Some (Inl e, Suc n)
      | Inr (positions, nextCursor) \<Rightarrow>
          if \<not> truthy nextCursor then Some (Inr (allPositions @ positions), Suc n)
          else fetchAllPositions_loop endpoint (Suc n) (allPositions @ positions) nextCursor)"

definition fetchAllPositions ::
  "(nat \<Rightarrow> string option \<Rightarrow> 'p PositionsResponse fetched) \<Rightarrow> ((error + 'p list) \<times> nat) option" where
  "fetchAllPositions endpoint = fetchAllPositions_loop endpoint 0 [] None"

text \<open>
  The pages that the loop reads, told apart from the loop: \<open>pages_from endpoint n cursor pgs\<close>
  holds when the requests from number \<open>n\<close> on, starting with \<open>cursor\<close>, are all answered with
  a page, each page but the last carries a cursor that the next request sends, and the last
  page carries none.
\<close>

inductive pages_from ::
  "(nat \<Rightarrow> string option \<Rightarrow> 'p PositionsResponse fetched) \<Rightarrow> nat \<Rightarrow> string option
     \<Rightarrow> ('p list \<times> string option) list \<Rightarrow> bool" where
  last_page:
    "fetchPositions (endpoint n) cursor = Inr (positions, nextCursor) \<Longrightarrow> \<not> truthy nextCursor
       \<Longrightarrow> pages_from endpoint n cursor [(positions, nextCursor)]"
| next_page:
    "fetchPositions (endpoint n) cursor = Inr (positions, nextCursor) \<Longrightarrow> truthy nextCursor
       \<Longrightarrow> pages_from endpoint (Suc n) nextCursor pgs
       \<Longrightarrow> pages_from endpoint n cursor ((positions, nextCursor) # pgs)"

code_pred pages_from .

subsection \<open>Account details, spot balances and mark prices\<close>

definition fetchAccountDetails ::
  "('pos AccountDetailsData) ApiResponse fetched \<Rightarrow> error + 'pos AccountDetailsData" where
  "fetchAccountDetails reply =
     (case reply of
        Inl rejection \<Rightarrow> Inl rejection
      | Inr response \<Rightarrow>
          if \<not> ok response
          then Inl (Error (''Failed to fetch account details: '' @ statusText response))
          else (case json response of
                  Inl rejection \<Rightarrow> Inl rejection
                | Inr d \<Rightarrow>
                    if code d \<noteq> 0 then Inl (Error ''API error: Failed to fetch account details'')
                    else Inr (data d)))"

definition fetchSpotBalance ::
  "('n SpotBalanceData) ApiResponse fetched \<Rightarrow> error + SpotBalance list" where
  "fetchSpotBalance reply =
     (case reply of
        Inl rejection \<Rightarrow> Inl rejection
      | Inr response \<Rightarrow>
          if \<not> ok response
          then Inl (Error (''Failed to fetch spot balance: '' @ statusText response))
          else (case json response of
                  Inl rejection \<Rightarrow> Inl rejection
                | Inr d \<Rightarrow>
                    if code d \<noteq> 0 then Inl (Error ''API error: Failed to fetch spot balance'')
                    else Inr (sd_spotBalance (data d))))"

definition fetchMarkPrices :: "(MarkPrice list) ApiResponse fetched \<Rightarrow> error + MarkPrice list" where
  "fetchMarkPrices reply =
     (case reply of
        Inl rejection \<Rightarrow> Inl rejection
      | Inr response \<Rightarrow>
          if \<not> ok response
          then Inl (Error (''Failed to fetch mark prices: '' @ statusText response))
          else (case json response of
                  Inl rejection \<Rightarrow> Inl rejection
                | Inr d \<Rightarrow>
                    if code d \<noteq> 0 then Inl (Error ''API error: Failed to fetch mark prices'')
                    else Inr (data d)))"

text \<open>
  A \<^verbatim>\<open>Map<string, number>\<close> is a map \<open>string \<rightharpoonup> 'n\<close>: \<^verbatim>\<open>get\<close> is application, with \<open>None\<close> for
  \<^verbatim>\<open>undefined\<close>, and \<^verbatim>\<open>set\<close> is update, a later \<^verbatim>\<open>set\<close> of a key replacing the earlier one.
\<close>

definition fetchFallbackMarkPrices ::
  "(string \<Rightarrow> 'n) \<Rightarrow> (FallbackMarkPrice list) ApiResponse fetched \<Rightarrow> error + (string \<rightharpoonup> 'n)" where
  "fetchFallbackMarkPrices pf reply =
     (case reply of
        Inl rejection \<Rightarrow> Inl rejection
      | Inr response \<Rightarrow>
          if \<not> ok response then Inr Map.empty
          else (case json response of
                  Inl rejection \<Rightarrow> Inl rejection
                | Inr d \<Rightarrow>
                    if code d \<noteq> 0 then Inr Map.empty
                    else Inr (foldl (\<lambda>fallbackPrices mp.
                                       let tokenName = before_dash (symbol mp)
                                       in fallbackPrices(tokenName \<mapsto> pf (markPrice mp)))
                                Map.empty (data d))))"

subsection \<open>The total balance\<close>

text \<open>
  \<^verbatim>\<open>await Promise.all([...])\<close> yields the values when all the promises fulfil, and rejects
  with the reason of the promise that rejects first in time. \<open>order\<close> lists the positions of
  the array in the order in which the promises settle; a position that the list leaves out
  settles after the listed ones, in the order of the array. \<open>first_rejection\<close> goes through
  the positions in this order and stops at the first rejected promise.
\<close>

definition rejection_of :: "error + 'a \<Rightarrow> error option" where
  "rejection_of p = (case p of Inl e \<Rightarrow> Some e | Inr v \<Rightarrow> None)"

fun first_rejection :: "nat list \<Rightarrow> error option list \<Rightarrow> error option" where
  "first_rejection [] settled = None"
| "first_rejection (i # later) settled =
     (if i < length settled
      then (case settled ! i of Some e \<Rightarrow> Some e | None \<Rightarrow> first_rejection later settled)
      else first_rejection later settled)"

definition promise_all4 ::
  "nat list \<Rightarrow> error + 'a \<Rightarrow> error + 'b \<Rightarrow> error + 'c \<Rightarrow> error + 'd
     \<Rightarrow> error + ('a \<times> 'b \<times> 'c \<times> 'd)" where
  "promise_all4 order a b c d =
     (case first_rejection (order @ [0, 1, 2, 3])
             [rejection_of a, rejection_of b, rejection_of c, rejection_of d] of
        Some e \<Rightarrow> Inl e
      | None \<Rightarrow>
          (case a of Inl e \<Rightarrow> Inl e | Inr w \<Rightarrow>
           (case b of Inl e \<Rightarrow> Inl e | Inr x \<Rightarrow>
            (case c of Inl e \<Rightarrow> Inl e | Inr y \<Rightarrow>
             (case d of Inl e \<Rightarrow> Inl e | Inr z \<Rightarrow> Inr (w, x, y, z))))))"

definition primary_prices :: "(string \<Rightarrow> 'n) \<Rightarrow> MarkPrice list \<Rightarrow> (string \<rightharpoonup> 'n)" where
  "primary_prices pf markPrices =
     foldl (\<lambda>primaryPriceMap mp.
              let symbol = before_dash (mp_s mp)
              in primaryPriceMap(symbol \<mapsto> pf (mp_p mp)))
       Map.empty markPrices"

text \<open>
  One round of \<^verbatim>\<open>spotTokens.forEach\<close>: the value of \<^verbatim>\<open>spotBalanceUSD\<close> after the callback has
  run on \<open>token\<close>. The \<^verbatim>\<open>return\<close> of the callback leaves it as it was.
\<close>

definition spot_token_step ::
  "(string \<Rightarrow> 'n) \<Rightarrow> (string \<rightharpoonup> 'n) \<Rightarrow> (string \<rightharpoonup> 'n) \<Rightarrow> 'n \<Rightarrow> SpotBalance \<Rightarrow> 'n::{plus,times}" where
  "spot_token_step pf primaryPriceMap fallbackPrices spotBalanceUSD token =
     (let normalized = normalizeTokenName (coin token);
          amount = pf (balance token);
          price = (case primaryPriceMap normalized of
                     None \<Rightarrow> fallbackPrices normalized
                   | Some primary \<Rightarrow> Some primary)
      in case price of
           None \<Rightarrow> spotBalanceUSD
         | Some found \<Rightarrow> (let usdValue = amount * found in spotBalanceUSD + usdValue))"

definition spot_balance_usd ::
  "(string \<Rightarrow> 'n) \<Rightarrow> (string \<rightharpoonup> 'n) \<Rightarrow> (string \<rightharpoonup> 'n) \<Rightarrow> SpotBalance list \<Rightarrow> 'n::{zero,plus,times}" where
  "spot_balance_usd pf primaryPriceMap fallbackPrices spotTokens =
     foldl (spot_token_step pf primaryPriceMap fallbackPrices) 0 spotTokens"

definition futures_balance :: "(string \<Rightarrow> 'n) \<Rightarrow> 'pos AccountDetailsData \<Rightarrow> 'n" where
  "futures_balance pf accountData =
     pf (or_string (map_option walletBalance (first_entry (balances accountData))) ''0'')"

text \<open>
  The rejections of the four retrievals of \<^verbatim>\<open>fetchTotalBalance\<close>, in the order of the array
  handed to \<^verbatim>\<open>Promise.all\<close>, with \<open>None\<close> for a retrieval that fulfils.
\<close>

definition retrievals_rejected ::
  "(string \<Rightarrow> 'n) \<Rightarrow> ('pos AccountDetailsData) ApiResponse fetched
     \<Rightarrow> ('n SpotBalanceData) ApiResponse fetched \<Rightarrow> (MarkPrice list) ApiResponse fetched
     \<Rightarrow> (FallbackMarkPrice list) ApiResponse fetched \<Rightarrow> error option list" where
  "retrievals_rejected pf accountReply spotReply markReply fallbackReply =
     [rejection_of (fetchAccountDetails accountReply), rejection_of (fetchSpotBalance spotReply),
      rejection_of (fetchMarkPrices markReply), rejection_of (fetchFallbackMarkPrices pf fallbackReply)]"

definition fetchTotalBalance ::
  "(string \<Rightarrow> 'n) \<Rightarrow> nat list \<Rightarrow> ('pos AccountDetailsData) ApiResponse fetched
     \<Rightarrow> ('n SpotBalanceData) ApiResponse fetched \<Rightarrow> (MarkPrice list) ApiResponse fetched
     \<Rightarrow> (FallbackMarkPrice list) ApiResponse fetched
     \<Rightarrow> error + ('n::{zero,plus,times}) TotalBalance" where
  "fetchTotalBalance pf order accountReply spotReply markReply fallbackReply =
     (case promise_all4 order (fetchAccountDetails accountReply) (fetchSpotBalance spotReply)
             (fetchMarkPrices markReply) (fetchFallbackMarkPrices pf fallbackReply) of
        Inl err \<Rightarrow> Inl err
      | Inr (accountData, spotTokens, markPrices, fallbackPrices) \<Rightarrow>
          (let primaryPriceMap = primary_prices pf markPrices;
               spotBalanceUSD = spot_balance_usd pf primaryPriceMap fallbackPrices spotTokens;
               futuresBalance = futures_balance pf accountData;
               totalBalance = spotBalanceUSD + futuresBalance
           in Inr \<lparr>spotBalance = spotBalanceUSD, futuresBalance = futuresBalance,
                    totalBalance = totalBalance\<rparr>))"

subsection \<open>The detailed balance\<close>

text \<open>
  \<^verbatim>\<open>fetchDetailedBalance\<close> reads the two bodies as untyped JSON, with optional chaining. A
  field that may be missing is an \<open>option\<close>; the values handed to \<^verbatim>\<open>parseFloat\<close> are taken in
  their string form, which is what \<^verbatim>\<open>parseFloat\<close> reads. \<^verbatim>\<open>coin.replace(/^[vw]/, '')\<close> removes
  the first character when it is \<^verbatim>\<open>v\<close> or \<^verbatim>\<open>w\<close>.
\<close>

record RawBalance =
  rb_walletBalance :: "string option"

record RawFuturesData =
  rf_balances :: "RawBalance list option"

record TokenData =
  td_coin :: string
  td_balance :: "string option"
  td_usdValue :: "string option"

record RawSpotData =
  rs_totalUsdtAmount :: "string option"
  rs_spotBalance :: "TokenData list option"

definition then_json :: "'a fetched \<Rightarrow> error + 'a" where
  "then_json reply = (case reply of Inl rejection \<Rightarrow> Inl rejection | Inr r \<Rightarrow> json r)"

definition promise_all2 :: "nat list \<Rightarrow> error + 'a \<Rightarrow> error + 'b \<Rightarrow> error + ('a \<times> 'b)" where
  "promise_all2 order a b =
     (case first_rejection (order @ [0, 1]) [rejection_of a, rejection_of b] of
        Some e \<Rightarrow> Inl e
      | None \<Rightarrow>
          (case a of Inl e \<Rightarrow> Inl e | Inr x \<Rightarrow> (case b of Inl e \<Rightarrow> Inl e | Inr y \<Rightarrow> Inr (x, y))))"

fun replace_leading_vw :: "string \<Rightarrow> string" where
  "replace_leading_vw [] = []"
| "replace_leading_vw (c # cs) = (if c = CHR ''v'' \<or> c = CHR ''w'' then cs else c # cs)"

record 'n TokenBalance =
  token :: string
  tb_coin :: string
  tb_balance :: 'n
  usdValue :: 'n

text \<open>
  One round of \<^verbatim>\<open>spotResponse.data.spotBalance.forEach\<close>: the array \<^verbatim>\<open>tokens\<close> after the
  callback has run on \<open>tokenData\<close>.
\<close>

definition detailed_token_step ::
  "(string \<Rightarrow> 'n) \<Rightarrow> 'n TokenBalance list \<Rightarrow> TokenData \<Rightarrow> ('n::{zero,ord}) TokenBalance list" where
  "detailed_token_step pf tokens tokenData =
     (let balance = pf (or_string (td_balance tokenData) ''0'')
      in if 0 < balance
         then (let cleanCoin = replace_leading_vw (td_coin tokenData);
                   usdValue = pf (or_string (td_usdValue tokenData) ''0'')
               in tokens @ [\<lparr>token = cleanCoin, tb_coin = td_coin tokenData,
                             tb_balance = balance,
                             usdValue = (if 0 < usdValue then usdValue else balance)\<rparr>])
         else tokens)"

definition detailed_tokens :: "(string \<Rightarrow> 'n) \<Rightarrow> TokenData list \<Rightarrow> ('n::{zero,ord}) TokenBalance list" where
  "detailed_tokens pf tokenList = foldl (detailed_token_step pf) [] tokenList"

record 'n DetailedBalance =
  totalUsdValue :: 'n
  tokens :: "'n TokenBalance list"
  db_futuresBalance :: 'n
  db_spotBalance :: 'n

definition fetchDetailedBalance ::
  "(string \<Rightarrow> 'n) \<Rightarrow> nat list \<Rightarrow> (RawFuturesData option) ApiResponse fetched
     \<Rightarrow> (RawSpotData option) ApiResponse fetched
     \<Rightarrow> error + ('n::{zero,plus,ord}) DetailedBalance" where
  "fetchDetailedBalance pf order futuresReply spotReply =
     (case promise_all2 order (then_json futuresReply) (then_json spotReply) of
        Inl err \<Rightarrow> Inl err
      | Inr (futuresResponse, spotResponse) \<Rightarrow>
          if code futuresResponse \<noteq> 0 \<or> code spotResponse \<noteq> 0
          then Inl (BalanceDataError (code futuresResponse) (code spotResponse))
          else
            (let futuresBalance =
                   pf (or_string
                         (Option.bind (Option.bind (Option.bind (data futuresResponse) rf_balances)
                            first_entry) rb_walletBalance) ''0'');
                 spotBalance =
                   pf (or_string (Option.bind (data spotResponse) rs_totalUsdtAmount) ''0'');
                 tokens = (case Option.bind (data spotResponse) rs_spotBalance of
                             None \<Rightarrow> []
                           | Some tokenList \<Rightarrow> detailed_tokens pf tokenList);
                 totalUsdValue = spotBalance + futuresBalance
             in Inr \<lparr>totalUsdValue = totalUsdValue, tokens = tokens,
                      db_futuresBalance = futuresBalance, db_spotBalance = spotBalance\<rparr>))"

section \<open>The deduplicating cache\<close>

text \<open>
  Modelled from the spec: \<^verbatim>\<open>cacheManager\<close> of \<^verbatim>\<open>src/lib/cache.ts\<close> is not among the sources;
  the definitions of this section follow section 4.1 of the specification. An entry of the
  cache is in one of the states \<^verbatim>\<open>Pending\<close> and \<^verbatim>\<open>Fulfilled(expires_at)\<close> of its state machine; a
  key with no entry is in the state \<^verbatim>\<open>Empty\<close>. A pending entry names the computation in
  flight by its handle, a natural number.
\<close>

datatype 'v CacheEntry = Pending nat | Fulfilled 'v nat

text \<open>
  Modelled from the spec: what a caller of \<^verbatim>\<open>deduplicate\<close> holds. \<open>Cached v\<close> is the stored value
  of a live entry; \<open>Awaits h\<close> is the pending result of the computation \<open>h\<close>, the same for
  every caller that shares it.
\<close>

datatype 'v reply = Cached 'v | Awaits nat

text \<open>
  Modelled from the spec: the internal table of the cache, its configured TTL, and the
  producers invoked so far, in the order of their invocation: the computation with handle
  \<open>h\<close> is the entry number \<open>h\<close> of \<open>computations\<close>, with its key and, once it has settled,
  its result (a failure on the left, a value on the right).
\<close>

record ('e, 'v) cache =
  entries :: "string \<rightharpoonup> 'v CacheEntry"
  ttl :: nat
  computations :: "(string \<times> ('e + 'v) option) list"

text \<open>Modelled from the spec: the cache before any call, with its TTL.\<close>

definition empty_cache :: "nat \<Rightarrow> ('e, 'v) cache" where
  "empty_cache window = \<lparr>entries = Map.empty, ttl = window, computations = []\<rparr>"

text \<open>
  Modelled from the spec: invoking the producer for \<open>key\<close>. The pending marker is set in the
  same step, and the caller awaits the new computation.
\<close>

definition start :: "string \<Rightarrow> ('e, 'v) cache \<Rightarrow> 'v reply \<times> ('e, 'v) cache" where
  "start key c =
     (let h = length (computations c)
      in (Awaits h, c\<lparr>entries := (entries c)(key \<mapsto> Pending h),
                       computations := computations c @ [(key, None)]\<rparr>))"

text \<open>
  Modelled from the spec: \<^verbatim>\<open>deduplicate(key, producer)\<close> called at the time \<open>now\<close>, up to the
  point where it hands its caller a result or a pending result. A live entry is returned
  without invoking the producer; a computation in flight is shared; otherwise the producer
  is invoked. An entry is live strictly before its expiry timestamp.
\<close>

definition deduplicate :: "nat \<Rightarrow> string \<Rightarrow> ('e, 'v) cache \<Rightarrow> 'v reply \<times> ('e, 'v) cache" where
  "deduplicate now key c =
     (case entries c key of
        None \<Rightarrow> start key c
      | Some (Pending h) \<Rightarrow> (Awaits h, c)
      | Some (Fulfilled v expiresAt) \<Rightarrow> if now < expiresAt then (Cached v, c) else start key c)"

text \<open>
  Modelled from the spec: the computation \<open>h\<close> settles at the time \<open>now\<close>. On success the
  result is stored with the expiry timestamp \<open>now + ttl\<close>; on failure the entry of the key
  is cleared. A computation settles once.
\<close>

definition settle :: "nat \<Rightarrow> nat \<Rightarrow> 'e + 'v \<Rightarrow> ('e, 'v) cache \<Rightarrow> ('e, 'v) cache" where
  "settle now h result c =
     (if h < length (computations c) \<and> snd (computations c ! h) = None
      then (let key = fst (computations c ! h)
            in c\<lparr>computations := (computations c)[h := (key, Some result)],
                 entries := (case result of
                               Inl failure \<Rightarrow> (entries c)(key := None)
                             | Inr v \<Rightarrow> (entries c)(key \<mapsto> Fulfilled v (now + ttl c)))\<rparr>)
      else c)"

text \<open>
  Modelled from the spec: what happens to the cache, one event at a time, in the single
  execution context of section 5: a call of \<^verbatim>\<open>deduplicate\<close> at a time for a key, or the
  settlement at a time of a computation, named by its handle, with its result.
\<close>

datatype ('e, 'v) event = Call nat string | Settle nat nat "'e + 'v"

text \<open>
  Modelled from the spec: the effect of one event, with the reply that a call gets (a
  settlement has none).
\<close>

fun step :: "('e, 'v) event \<Rightarrow> ('e, 'v) cache \<Rightarrow> 'v reply option \<times> ('e, 'v) cache" where
  "step (Call now key) c = (let (r, c') = deduplicate now key c in (Some r, c'))"
| "step (Settle now h result) c = (None, settle now h result c)"

text \<open>
  Modelled from the spec: a trace of events, calls for any keys and settlements of any
  computations in any order; the replies are in the order of the events.
\<close>

fun run :: "('e, 'v) event list \<Rightarrow> ('e, 'v) cache \<Rightarrow> 'v reply option list \<times> ('e, 'v) cache" where
  "run [] c = ([], c)"
| "run (ev # evs) c =
     (let (r, c') = step ev c; (rs, c'') = run evs c' in (r # rs, c''))"

text \<open>Modelled from the spec: the event is the settlement of the computation \<open>h\<close>.\<close>

definition settles :: "nat \<Rightarrow> ('e, 'v) event \<Rightarrow> bool" where
  "settles h ev = (case ev of Call now key \<Rightarrow> False | Settle now h' result \<Rightarrow> h' = h)"

text \<open>Modelled from the spec: the event is a call of \<^verbatim>\<open>deduplicate\<close> for the key \<open>K\<close>.\<close>

definition calls_key :: "string \<Rightarrow> ('e, 'v) event \<Rightarrow> bool" where
  "calls_key K ev = (case ev of Call now key \<Rightarrow> key = K | Settle now h result \<Rightarrow> False)"

text \<open>Modelled from the spec: the time of the event.\<close>

definition event_time :: "('e, 'v) event \<Rightarrow> nat" where
  "event_time ev = (case ev of Call now key \<Rightarrow> now | Settle now h result \<Rightarrow> now)"

text \<open>
  Modelled from the spec: what a caller that holds the reply \<open>r\<close> receives in the cache
  state \<open>c\<close>: the stored value, or the result of the computation it awaits once that has
  settled (\<open>None\<close> while it is pending).
\<close>

definition outcome_of :: "('e, 'v) cache \<Rightarrow> 'v reply \<Rightarrow> ('e + 'v) option" where
  "outcome_of c r =
     (case r of
        Cached v \<Rightarrow> Some (Inr v)
      | Awaits h \<Rightarrow> if h < length (computations c) then snd (computations c ! h) else None)"

text \<open>Modelled from the spec: how often the producer has been invoked for \<open>key\<close>.\<close>

definition producer_runs :: "string \<Rightarrow> ('e, 'v) cache \<Rightarrow> nat" where
  "producer_runs key c = length (filter (\<lambda>started. fst started = key) (computations c))"

text \<open>
  Modelled from the spec: \<open>key\<close> has no live result and no computation in flight at the time
  \<open>now\<close> (the state \<^verbatim>\<open>Empty\<close>, or \<^verbatim>\<open>Fulfilled\<close> and expired).
\<close>

definition vacant :: "nat \<Rightarrow> string \<Rightarrow> ('e, 'v) cache \<Rightarrow> bool" where
  "vacant now key c =
     (case entries c key of
        None \<Rightarrow> True
      | Some (Pending h) \<Rightarrow> False
      | Some (Fulfilled v expiresAt) \<Rightarrow> \<not> now < expiresAt)"

text \<open>
  Modelled from the spec: the state of the table agrees with the computations in flight.
  A pending entry names an unsettled computation of its key, and every unsettled
  computation is the pending entry of its key, so that a key has at most one computation
  in flight. Every state that a trace of events reaches from the empty cache is such a
  state.
\<close>

definition consistent :: "('e, 'v) cache \<Rightarrow> bool" where
  "consistent c \<longleftrightarrow>
     (\<forall>k h. entries c k = Some (Pending h) \<longrightarrow>
        h < length (computations c) \<and> computations c ! h = (k, None))
   \<and> (\<forall>h k. h < length (computations c) \<and> computations c ! h = (k, None) \<longrightarrow>
        entries c k = Some (Pending h))"

section \<open>Stated behaviour\<close>

text \<open>
  A failure of an upstream source in the words of the specification: a response with a
  non-success HTTP status, or a JSON body whose \<^verbatim>\<open>code\<close> is not zero.
\<close>

definition upstream_failure :: "'d ApiResponse fetched \<Rightarrow> bool" where
  "upstream_failure reply =
     (case reply of
        Inl rejection \<Rightarrow> False
      | Inr response \<Rightarrow>
          if ok response then (case json response of Inl rejection \<Rightarrow> False | Inr d \<Rightarrow> code d \<noteq> 0)
          else True)"

text \<open>
  The entry of the \<^verbatim>\<open>tokens\<close> array for a spot token whose balance string is \<open>str\<close>: its
  name is the coin without a leading \<^verbatim>\<open>v\<close> or \<^verbatim>\<open>w\<close>, and its USD value is the one provided
  upstream when that parses to a positive number, the balance otherwise. A spot token is
  listed when its balance parses to a positive number.
\<close>

definition listed_token :: "(string \<Rightarrow> 'n) \<Rightarrow> TokenData \<Rightarrow> string \<Rightarrow> ('n::{zero,ord}) TokenBalance" where
  "listed_token pf tokenData str =
     \<lparr>token = replace_leading_vw (td_coin tokenData), tb_coin = td_coin tokenData,
      tb_balance = pf str,
      usdValue = (case td_usdValue tokenData of
                    None \<Rightarrow> pf str
                  | Some u \<Rightarrow> if 0 < pf u then pf u else pf str)\<rparr>"

definition positive_token :: "(string \<Rightarrow> 'n) \<Rightarrow> TokenData \<Rightarrow> ('n::{zero,ord}) TokenBalance option" where
  "positive_token pf tokenData =
     (case td_balance tokenData of
        None \<Rightarrow> None
      | Some str \<Rightarrow> if 0 < pf str then Some (listed_token pf tokenData str) else None)"

section \<open>Sample replies\<close>

text \<open>
  Concrete replies on which the model is run: an account with one futures wallet, the spot
  tokens \<^verbatim>\<open>vBTC\<close> (2 units) and \<^verbatim>\<open>USDC\<close> (100 units), the primary price 50000 for \<^verbatim>\<open>BTC-USD\<close>,
  and no price for \<^verbatim>\<open>USDC\<close> in either source.
\<close>

definition ok_reply :: "'d \<Rightarrow> 'd ApiResponse fetched" where
  "ok_reply d = Inr \<lparr>ok = True, statusText = ''OK'', json = Inr \<lparr>code = 0, data = d\<rparr>\<rparr>"

definition status_reply :: "string \<Rightarrow> 'd ApiResponse fetched" where
  "status_reply txt = Inr \<lparr>ok = False, statusText = txt, json = Inl InvalidJson\<rparr>"

definition code_reply :: "int \<Rightarrow> 'd \<Rightarrow> 'd ApiResponse fetched" where
  "code_reply c d = Inr \<lparr>ok = True, statusText = ''OK'', json = Inr \<lparr>code = c, data = d\<rparr>\<rparr>"

definition sample_account :: "string \<Rightarrow> unit AccountDetailsData" where
  "sample_account wallet =
     \<lparr>ad_positions = [],
      balances = [\<lparr>bd_coin = ''USDC'', walletBalance = wallet, openOrderMarginFrozen = ''0'',
                   bd_availableBalance = wallet\<rparr>],
      isolatedMargin = ''0'', crossMargin = ''0'', availableMarginForIsolated = ''0'',
      availableMarginForCross = ''0''\<rparr>"

definition sample_btc :: SpotBalance where
  "sample_btc = \<lparr>coin = ''vBTC'', balance = ''2'', availableBalance = ''2''\<rparr>"

definition sample_usdc :: SpotBalance where
  "sample_usdc = \<lparr>coin = ''USDC'', balance = ''100'', availableBalance = ''100''\<rparr>"

definition sample_spot :: "SpotBalance list \<Rightarrow> number SpotBalanceData" where
  "sample_spot spotTokens = \<lparr>sd_spotBalance = spotTokens, sd_totalUsdtAmount = Fin 100100\<rparr>"

definition sample_marks :: "MarkPrice list" where
  "sample_marks = [\<lparr>mp_s = ''BTC-USD'', mp_p = ''50000'', mp_t = 1700000000000\<rparr>]"

text \<open>
  A positions endpoint with two pages: the first request, with no cursor, gets the items 1
  and 2 and the cursor \<^verbatim>\<open>c1\<close>; the request with the cursor \<^verbatim>\<open>c1\<close> gets the item 3 and no
  cursor.
\<close>

definition two_pages :: "nat \<Rightarrow> string option \<Rightarrow> nat PositionsResponse fetched" where
  "two_pages n cursor =
     (if cursor = None
      then Inr \<lparr>ok = True, statusText = ''OK'',
                json = Inr \<lparr>code = 0, data = Some [1, 2], message = ''success'',
                            next_cursor = Some ''c1''\<rparr>\<rparr>
      else if cursor = Some ''c1''
      then Inr \<lparr>ok = True, statusText = ''OK'',
                json = Inr \<lparr>code = 0, data = Some [3], message = ''success'',
                            next_cursor = None\<rparr>\<rparr>
      else Inr \<lparr>ok = False, statusText = ''Bad Request'', json = Inl InvalidJson\<rparr>)"

text \<open>
  The bodies read by \<^verbatim>\<open>fetchDetailedBalance\<close>: a futures wallet of 250, and the spot tokens
  \<^verbatim>\<open>vBTC\<close> (2 units, USD value 100000), \<^verbatim>\<open>wETH\<close> (3 units, no USD value), \<^verbatim>\<open>USDC\<close> (0 units)
  and \<^verbatim>\<open>vSOL\<close> (no balance).
\<close>

definition sample_raw_futures :: "RawFuturesData option" where
  "sample_raw_futures = Some \<lparr>rf_balances = Some [\<lparr>rb_walletBalance = Some ''250''\<rparr>]\<rparr>"

definition sample_raw_spot :: "RawSpotData option" where
  "sample_raw_spot =
     Some \<lparr>rs_totalUsdtAmount = Some ''100003'',
           rs_spotBalance = Some
             [\<lparr>td_coin = ''vBTC'', td_balance = Some ''2'', td_usdValue = Some ''100000''\<rparr>,
              \<lparr>td_coin = ''wETH'', td_balance = Some ''3'', td_usdValue = None\<rparr>,
              \<lparr>td_coin = ''USDC'', td_balance = Some ''0'', td_usdValue = Some ''0''\<rparr>,
              \<lparr>td_coin = ''vSOL'', td_balance = None, td_usdValue = None\<rparr>]\<rparr>"

text \<open>
  The order in which the four retrievals of the sample settle: the spot balances, the
  account details, the fallback prices, the primary prices.
\<close>

definition sample_order :: "nat list" where
  "sample_order = [1, 0, 3, 2]"

text \<open>
  Events on a cache with a TTL of 10. After a first call for \<^verbatim>\<open>markPrices\<close> at the time 0:
  a second call for it, a call for \<^verbatim>\<open>spotBalance_7\<close> whose computation fails, a third call
  for \<^verbatim>\<open>markPrices\<close>, and a new call for \<^verbatim>\<open>spotBalance_7\<close>. Then, after the computation of
  \<^verbatim>\<open>markPrices\<close> has succeeded at the time 6: calls for it at the times 7 and 15, a call for
  \<^verbatim>\<open>accountDetails_7\<close>, the failure of the second computation of \<^verbatim>\<open>spotBalance_7\<close> and the
  success of the one of \<^verbatim>\<open>accountDetails_7\<close>.
\<close>

definition sample_cache :: "(error, nat) cache" where
  "sample_cache = empty_cache 10"

definition sample_trace :: "(error, nat) event list" where
  "sample_trace =
     [Call 1 ''markPrices'', Call 2 ''spotBalance_7'', Settle 3 1 (Inl NetworkFailure),
      Call 4 ''markPrices'', Call 5 ''spotBalance_7'']"

text \<open>
  The cache that the first call and the events of \<open>sample_trace\<close> leave: the computation
  of \<^verbatim>\<open>markPrices\<close>, with the handle 0, is in flight.
\<close>

definition sample_inflight :: "(error, nat) cache" where
  "sample_inflight = snd (run (Call 0 ''markPrices'' # sample_trace) (empty_cache 10))"

definition sample_later_trace :: "(error, nat) event list" where
  "sample_later_trace =
     [Call 7 ''markPrices'', Call 8 ''accountDetails_7'', Settle 9 2 (Inl NetworkFailure),
      Call 15 ''markPrices'', Settle 16 3 (Inr 7)]"

section \<open>Properties\<close>

subsection \<open>Token names\<close>

lemma strip_leading_v_eq: "(if prefix ''v'' c then drop 1 c else c) = strip_leading_v c"
  by (cases c) auto

text \<open>
  C3. For every input string, \<^const>\<open>normalizeTokenName\<close> first strips a single leading
  \<^verbatim>\<open>v\<close> if present, then maps \<^verbatim>\<open>SOSO\<close> and \<^verbatim>\<open>WSOSO\<close> to \<^verbatim>\<open>SOSO\<close>, \<^verbatim>\<open>MAG7.ssi\<close> to
  \<^verbatim>\<open>MAG7\<close>, \<^verbatim>\<open>USDC\<close> to \<^verbatim>\<open>USDC\<close>, and returns every other stripped name unchanged;
  in particular \<^verbatim>\<open>WSOSO\<close> gives \<^verbatim>\<open>SOSO\<close>, \<^verbatim>\<open>MAG7.ssi\<close> gives \<^verbatim>\<open>MAG7\<close> and \<^verbatim>\<open>vETH\<close> gives
  \<^verbatim>\<open>ETH\<close>.
\<close>

theorem normalizeTokenName_policy:
  "normalizeTokenName c = normalize_policy c
   \<and> normalizeTokenName ''WSOSO'' = ''SOSO''
   \<and> normalizeTokenName ''MAG7.ssi'' = ''MAG7''
   \<and> normalizeTokenName ''vETH'' = ''ETH''"
proof -
  have "normalizeTokenName c = normalize_policy c"
    unfolding normalizeTokenName_def normalize_policy_def strip_leading_v_eq
    by (simp add: token_aliases_def Let_def)
  moreover have "normalizeTokenName ''WSOSO'' = ''SOSO''"
    by (simp add: normalizeTokenName_def)
  moreover have "normalizeTokenName ''MAG7.ssi'' = ''MAG7''"
    by (simp add: normalizeTokenName_def)
  moreover have "normalizeTokenName ''vETH'' = ''ETH''"
    by (simp add: normalizeTokenName_def)
  ultimately show ?thesis by simp
qed

subsection \<open>The total balance\<close>

lemma first_rejection_all_None:
  assumes "\<forall>x \<in> set settled. x = None"
  shows "first_rejection positions settled = None"
proof (induction positions)
  case Nil
  then show ?case by simp
next
  case (Cons i later)
  have "settled ! i = None" if "i < length settled"
    using assms nth_mem [OF that] by blast
  with Cons show ?case by simp
qed

lemma first_rejection_mem:
  "first_rejection positions settled = Some e \<Longrightarrow> Some e \<in> set settled"
  by (induction positions) (auto split: if_splits option.splits dest: nth_mem)

lemma first_rejection_covered:
  "first_rejection positions settled = None \<Longrightarrow> i \<in> set positions \<Longrightarrow> i < length settled
     \<Longrightarrow> settled ! i = None"
  by (induction positions) (auto split: if_splits option.splits)

lemma first_rejection_first:
  assumes "i < length settled" and "settled ! i = Some e"
    and "\<forall>j \<in> set before. j < length settled \<longrightarrow> settled ! j = None"
  shows "first_rejection (before @ i # after) settled = Some e"
  using assms by (induction before) simp_all

lemma promise_all4_Inr:
  "promise_all4 order a b c d = Inr v \<longleftrightarrow>
     (\<exists>w x y z. a = Inr w \<and> b = Inr x \<and> c = Inr y \<and> d = Inr z \<and> v = (w, x, y, z))"
proof
  assume "promise_all4 order a b c d = Inr v"
  then show "\<exists>w x y z. a = Inr w \<and> b = Inr x \<and> c = Inr y \<and> d = Inr z \<and> v = (w, x, y, z)"
    by (auto simp: promise_all4_def split: option.splits sum.splits)
next
  assume "\<exists>w x y z. a = Inr w \<and> b = Inr x \<and> c = Inr y \<and> d = Inr z \<and> v = (w, x, y, z)"
  then obtain w x y z where
    all: "a = Inr w" "b = Inr x" "c = Inr y" "d = Inr z" "v = (w, x, y, z)"
    by blast
  have "first_rejection (order @ [0, 1, 2, 3])
          [rejection_of a, rejection_of b, rejection_of c, rejection_of d] = None"
    by (rule first_rejection_all_None) (simp add: all rejection_of_def)
  then show "promise_all4 order a b c d = Inr v"
    by (simp add: promise_all4_def all)
qed

lemma promise_all4_first:
  assumes "promise_all4 order a b c d = Inl e"
  shows "first_rejection (order @ [0, 1, 2, 3])
           [rejection_of a, rejection_of b, rejection_of c, rejection_of d] = Some e"
proof (cases "first_rejection (order @ [0, 1, 2, 3])
           [rejection_of a, rejection_of b, rejection_of c, rejection_of d]")
  case (Some e')
  with assms show ?thesis by (simp add: promise_all4_def)
next
  case None
  from first_rejection_covered [OF None, of 0] first_rejection_covered [OF None, of 1]
    first_rejection_covered [OF None, of 2] first_rejection_covered [OF None, of 3]
  have "rejection_of a = None" "rejection_of b = None" "rejection_of c = None"
    "rejection_of d = None"
    by simp_all
  then obtain w x y z where "a = Inr w" "b = Inr x" "c = Inr y" "d = Inr z"
    by (auto simp: rejection_of_def split: sum.splits)
  with assms None show ?thesis by (simp add: promise_all4_def)
qed

lemma promise_all4_Inl:
  assumes "promise_all4 order a b c d = Inl e"
  shows "a = Inl e \<or> b = Inl e \<or> c = Inl e \<or> d = Inl e"
  using first_rejection_mem [OF promise_all4_first [OF assms]]
  by (auto simp: rejection_of_def split: sum.splits)

lemma promise_all4_rejects:
  assumes "a = Inl e \<or> b = Inl e' \<or> c = Inl e'' \<or> d = Inl e'''"
  shows "\<exists>e. promise_all4 order a b c d = Inl e"
proof (cases "promise_all4 order a b c d")
  case (Inl e)
  then show ?thesis by blast
next
  case (Inr v)
  with assms show ?thesis by (auto simp: promise_all4_Inr)
qed

lemma fetchTotalBalance_Inr:
  assumes "fetchTotalBalance pf order accountReply spotReply markReply fallbackReply = Inr r"
  obtains accountData spotTokens markPrices fallbackPrices where
    "fetchAccountDetails accountReply = Inr accountData"
    "fetchSpotBalance spotReply = Inr spotTokens"
    "fetchMarkPrices markReply = Inr markPrices"
    "fetchFallbackMarkPrices pf fallbackReply = Inr fallbackPrices"
    "r = \<lparr>spotBalance = spot_balance_usd pf (primary_prices pf markPrices) fallbackPrices spotTokens,
          futuresBalance = futures_balance pf accountData,
          totalBalance = spot_balance_usd pf (primary_prices pf markPrices) fallbackPrices spotTokens
                           + futures_balance pf accountData\<rparr>"
  using assms
  by (auto simp: fetchTotalBalance_def promise_all4_Inr Let_def split: sum.splits)

lemma fetchTotalBalance_first:
  assumes "fetchTotalBalance pf order accountReply spotReply markReply fallbackReply = Inl e"
  shows "first_rejection (order @ [0, 1, 2, 3])
           (retrievals_rejected pf accountReply spotReply markReply fallbackReply) = Some e"
proof -
  from assms have "promise_all4 order (fetchAccountDetails accountReply)
      (fetchSpotBalance spotReply) (fetchMarkPrices markReply)
      (fetchFallbackMarkPrices pf fallbackReply) = Inl e"
    by (auto simp: fetchTotalBalance_def Let_def split: sum.splits)
  then show ?thesis
    unfolding retrievals_rejected_def by (rule promise_all4_first)
qed

lemma fetchTotalBalance_Inl:
  assumes "fetchTotalBalance pf order accountReply spotReply markReply fallbackReply = Inl e"
  shows "fetchAccountDetails accountReply = Inl e \<or> fetchSpotBalance spotReply = Inl e
       \<or> fetchMarkPrices markReply = Inl e \<or> fetchFallbackMarkPrices pf fallbackReply = Inl e"
  using assms
  by (auto simp: fetchTotalBalance_def Let_def split: sum.splits dest: promise_all4_Inl)

lemma fetchTotalBalance_success:
  assumes "fetchAccountDetails accountReply = Inr accountData"
    "fetchSpotBalance spotReply = Inr spotTokens"
    "fetchMarkPrices markReply = Inr markPrices"
    "fetchFallbackMarkPrices pf fallbackReply = Inr fallbackPrices"
  shows "fetchTotalBalance pf order accountReply spotReply markReply fallbackReply =
    Inr \<lparr>spotBalance = spot_balance_usd pf (primary_prices pf markPrices) fallbackPrices spotTokens,
          futuresBalance = futures_balance pf accountData,
          totalBalance = spot_balance_usd pf (primary_prices pf markPrices) fallbackPrices spotTokens
                           + futures_balance pf accountData\<rparr>"
proof -
  have "promise_all4 order (fetchAccountDetails accountReply) (fetchSpotBalance spotReply)
      (fetchMarkPrices markReply) (fetchFallbackMarkPrices pf fallbackReply)
      = Inr (accountData, spotTokens, markPrices, fallbackPrices)"
    by (simp add: promise_all4_Inr assms)
  then show ?thesis by (simp add: fetchTotalBalance_def Let_def)
qed

lemma fetchTotalBalance_rejects:
  assumes "fetchAccountDetails accountReply = Inl e \<or> fetchSpotBalance spotReply = Inl e'
       \<or> fetchMarkPrices markReply = Inl e'' \<or> fetchFallbackMarkPrices pf fallbackReply = Inl e'''"
  shows "\<exists>e. fetchTotalBalance pf order accountReply spotReply markReply fallbackReply = Inl e"
proof -
  from promise_all4_rejects [OF assms, of order] obtain e where
    "promise_all4 order (fetchAccountDetails accountReply) (fetchSpotBalance spotReply)
      (fetchMarkPrices markReply) (fetchFallbackMarkPrices pf fallbackReply) = Inl e"
    by blast
  then show ?thesis by (simp add: fetchTotalBalance_def)
qed

lemma fetchTotalBalance_spot_only:
  assumes "fetchSpotBalance spotReply = Inr spotTokens"
    and "fetchSpotBalance spotReply' = Inr spotTokens'"
    and "fetchAccountDetails accountReply = Inl e"
  shows "fetchTotalBalance pf order accountReply spotReply markReply fallbackReply
       = fetchTotalBalance pf order accountReply spotReply' markReply fallbackReply"
proof -
  from fetchTotalBalance_rejects [of accountReply e spotReply _ markReply _ pf fallbackReply _ order]
    assms(3)
  obtain e' where e': "fetchTotalBalance pf order accountReply spotReply markReply fallbackReply
      = Inl e'"
    by blast
  have same: "retrievals_rejected pf accountReply spotReply' markReply fallbackReply
      = retrievals_rejected pf accountReply spotReply markReply fallbackReply"
    by (simp add: retrievals_rejected_def assms(1,2) rejection_of_def)
  from fetchTotalBalance_rejects [of accountReply e spotReply' _ markReply _ pf fallbackReply _ order]
    assms(3)
  obtain e'' where e'': "fetchTotalBalance pf order accountReply spotReply' markReply fallbackReply
      = Inl e''"
    by blast
  from fetchTotalBalance_first [OF e'] fetchTotalBalance_first [OF e''] same
  have "e' = e''" by simp
  with e' e'' show ?thesis by simp
qed

text \<open>The retrievals of the sample replies, and the primary price map they give.\<close>

lemma sample_account_fetched:
  "fetchAccountDetails (ok_reply (sample_account wallet)) = Inr (sample_account wallet)"
  by (simp add: fetchAccountDetails_def ok_reply_def)

lemma sample_spot_fetched: "fetchSpotBalance (ok_reply (sample_spot spotTokens)) = Inr spotTokens"
  by (simp add: fetchSpotBalance_def ok_reply_def sample_spot_def)

lemma sample_marks_fetched: "fetchMarkPrices (ok_reply sample_marks) = Inr sample_marks"
  by (simp add: fetchMarkPrices_def ok_reply_def)

lemma no_fallback_fetched: "fetchFallbackMarkPrices pf (ok_reply []) = Inr Map.empty"
  by (simp add: fetchFallbackMarkPrices_def ok_reply_def)

lemma sample_primary_prices:
  "primary_prices parseFloat_digits sample_marks = [''BTC'' \<mapsto> Fin 50000]"
  by (simp add: primary_prices_def sample_marks_def before_dash_def parseFloat_digits_def)

lemma sample_spot_sum:
  "spot_balance_usd parseFloat_digits [''BTC'' \<mapsto> Fin 50000] Map.empty [sample_btc, sample_usdc]
     = Fin 100000"
  "spot_balance_usd parseFloat_digits [''BTC'' \<mapsto> Fin 50000] Map.empty [sample_btc] = Fin 100000"
  by (simp_all add: spot_balance_usd_def spot_token_step_def sample_btc_def sample_usdc_def
      normalizeTokenName_def parseFloat_digits_def zero_number_def)

lemma sample_futures:
  "futures_balance parseFloat_digits (sample_account ''250'') = Fin 250"
  "futures_balance parseFloat_digits (sample_account []) = Fin 0"
  by (simp_all add: futures_balance_def sample_account_def first_entry_def or_string_def
      parseFloat_digits_def)

lemma sample_total:
  "fetchTotalBalance parseFloat_digits order (ok_reply (sample_account ''250''))
     (ok_reply (sample_spot [sample_btc, sample_usdc])) (ok_reply sample_marks) (ok_reply [])
   = Inr \<lparr>spotBalance = Fin 100000, futuresBalance = Fin 250, totalBalance = Fin 100250\<rparr>"
  by (simp add: fetchTotalBalance_success [OF sample_account_fetched sample_spot_fetched
        sample_marks_fetched no_fallback_fetched] sample_primary_prices sample_spot_sum
      sample_futures)

text \<open>
  C1. For every successful call, \<^const>\<open>fetchTotalBalance\<close> returns a record whose
  \<^const>\<open>totalBalance\<close> is exactly the sum of its \<^const>\<open>spotBalance\<close> and its
  \<^const>\<open>futuresBalance\<close>, where \<^const>\<open>spotBalance\<close> is the computed spot USD sum and
  \<^const>\<open>futuresBalance\<close> is the parsed futures wallet balance. The sum is the addition of the
  numbers, whatever its arithmetic; nothing is rounded after it.
\<close>

theorem fetchTotalBalance_total:
  assumes "fetchTotalBalance pf order accountReply spotReply markReply fallbackReply = Inr r"
  shows "totalBalance r = spotBalance r + futuresBalance r
       \<and> (\<exists>accountData spotTokens markPrices fallbackPrices.
             fetchAccountDetails accountReply = Inr accountData
           \<and> fetchSpotBalance spotReply = Inr spotTokens
           \<and> fetchMarkPrices markReply = Inr markPrices
           \<and> fetchFallbackMarkPrices pf fallbackReply = Inr fallbackPrices
           \<and> spotBalance r
               = spot_balance_usd pf (primary_prices pf markPrices) fallbackPrices spotTokens
           \<and> futuresBalance r = futures_balance pf accountData)"
  using assms by (elim fetchTotalBalance_Inr) simp

theorem fetchTotalBalance_total_witness:
  "fetchTotalBalance parseFloat_digits sample_order (ok_reply (sample_account ''250''))
     (ok_reply (sample_spot [sample_btc, sample_usdc])) (ok_reply sample_marks) (ok_reply [])
     = Inr \<lparr>spotBalance = Fin 100000, futuresBalance = Fin 250, totalBalance = Fin 100250\<rparr>
   \<and> Fin 100250 = Fin 100000 + Fin 250"
  using fetchTotalBalance_total [OF sample_total] sample_total by simp

lemma spot_token_step_absent:
  assumes "primaryPriceMap (normalizeTokenName (coin t)) = None"
    and "fallbackPrices (normalizeTokenName (coin t)) = None"
  shows "spot_token_step pf primaryPriceMap fallbackPrices acc t = acc"
  using assms by (simp add: spot_token_step_def Let_def)

lemma spot_token_step_priced:
  "primaryPriceMap (normalizeTokenName (coin t)) = Some p \<Longrightarrow>
     spot_token_step pf primaryPriceMap fallbackPrices acc t = acc + pf (balance t) * p"
  "primaryPriceMap (normalizeTokenName (coin t)) = None \<Longrightarrow>
     fallbackPrices (normalizeTokenName (coin t)) = Some q \<Longrightarrow>
     spot_token_step pf primaryPriceMap fallbackPrices acc t = acc + pf (balance t) * q"
  by (simp_all add: spot_token_step_def Let_def)

lemma spot_balance_usd_skip:
  assumes "primaryPriceMap (normalizeTokenName (coin t)) = None"
    and "fallbackPrices (normalizeTokenName (coin t)) = None"
  shows "spot_balance_usd pf primaryPriceMap fallbackPrices (before @ t # after)
         = spot_balance_usd pf primaryPriceMap fallbackPrices (before @ after)"
  using assms by (simp add: spot_balance_usd_def spot_token_step_absent)

text \<open>
  C2. In \<^const>\<open>fetchTotalBalance\<close>, a spot token \<open>t\<close> whose normalized symbol is absent from
  both the primary and the fallback price map contributes nothing to the spot sum: the
  round of the loop leaves the sum as it was, whatever it was (the token is skipped, it is
  not multiplied by a zero price), so the sum over the tokens is the sum over the tokens
  without \<open>t\<close>, and the call returns what it returns without \<open>t\<close>, an error no more often.
  A price is taken from the primary map when it has one, and from the fallback map only
  when the primary map has none.
\<close>

theorem unpriced_token_skipped:
  assumes primary: "primary_prices pf markPrices (normalizeTokenName (coin t)) = None"
    and fallback: "fallbackPrices (normalizeTokenName (coin t)) = None"
    and marks: "fetchMarkPrices markReply = Inr markPrices"
    and fb: "fetchFallbackMarkPrices pf fallbackReply = Inr fallbackPrices"
    and spot_with: "fetchSpotBalance spotReply = Inr (before @ t # after)"
    and spot_without: "fetchSpotBalance spotReply' = Inr (before @ after)"
  shows "spot_token_step pf (primary_prices pf markPrices) fallbackPrices acc t = acc
       \<and> spot_balance_usd pf (primary_prices pf markPrices) fallbackPrices (before @ t # after)
           = spot_balance_usd pf (primary_prices pf markPrices) fallbackPrices (before @ after)
       \<and> fetchTotalBalance pf order accountReply spotReply markReply fallbackReply
           = fetchTotalBalance pf order accountReply spotReply' markReply fallbackReply
       \<and> (\<forall>u p. primary_prices pf markPrices (normalizeTokenName (coin u)) = Some p \<longrightarrow>
             spot_token_step pf (primary_prices pf markPrices) fallbackPrices acc u
               = acc + pf (balance u) * p)
       \<and> (\<forall>u q. primary_prices pf markPrices (normalizeTokenName (coin u)) = None
               \<and> fallbackPrices (normalizeTokenName (coin u)) = Some q \<longrightarrow>
             spot_token_step pf (primary_prices pf markPrices) fallbackPrices acc u
               = acc + pf (balance u) * q)"
proof -
  let ?primary = "primary_prices pf markPrices"
  have step: "spot_token_step pf ?primary fallbackPrices acc t = acc"
    using primary fallback by (simp add: spot_token_step_absent)
  have skip: "spot_balance_usd pf ?primary fallbackPrices (before @ t # after)
           = spot_balance_usd pf ?primary fallbackPrices (before @ after)"
    using primary fallback by (simp add: spot_balance_usd_skip)
  have same: "fetchTotalBalance pf order accountReply spotReply markReply fallbackReply
           = fetchTotalBalance pf order accountReply spotReply' markReply fallbackReply"
  proof (cases "fetchAccountDetails accountReply")
    case (Inl e)
    from spot_with spot_without this show ?thesis by (rule fetchTotalBalance_spot_only)
  next
    case (Inr accountData)
    show ?thesis
      using skip
      by (simp add: fetchTotalBalance_success [OF Inr spot_with marks fb]
          fetchTotalBalance_success [OF Inr spot_without marks fb])
  qed
  from step skip same show ?thesis
    by (simp add: spot_token_step_priced)
qed

theorem unpriced_token_skipped_witness:
  "primary_prices parseFloat_digits sample_marks (normalizeTokenName (coin sample_usdc)) = None
   \<and> parseFloat_digits (balance sample_usdc) = Fin 100
   \<and> spot_balance_usd parseFloat_digits (primary_prices parseFloat_digits sample_marks) Map.empty
         [sample_btc, sample_usdc]
       = spot_balance_usd parseFloat_digits (primary_prices parseFloat_digits sample_marks) Map.empty
         [sample_btc]
   \<and> fetchTotalBalance parseFloat_digits sample_order (ok_reply (sample_account ''250''))
        (ok_reply (sample_spot [sample_btc, sample_usdc])) (ok_reply sample_marks) (ok_reply [])
       = fetchTotalBalance parseFloat_digits sample_order (ok_reply (sample_account ''250''))
        (ok_reply (sample_spot [sample_btc])) (ok_reply sample_marks) (ok_reply [])"
proof -
  have primary:
    "primary_prices parseFloat_digits sample_marks (normalizeTokenName (coin sample_usdc)) = None"
    by (simp add: sample_primary_prices sample_usdc_def normalizeTokenName_def)
  have fallback: "Map.empty (normalizeTokenName (coin sample_usdc)) = (None :: number option)"
    by simp
  have amount: "parseFloat_digits (balance sample_usdc) = Fin 100"
    by (simp add: sample_usdc_def parseFloat_digits_def)
  have spot_with:
    "fetchSpotBalance (ok_reply (sample_spot [sample_btc, sample_usdc])
        :: (number SpotBalanceData) ApiResponse fetched)
       = Inr ([sample_btc] @ sample_usdc # [])"
    by (simp add: sample_spot_fetched)
  have spot_without:
    "fetchSpotBalance (ok_reply (sample_spot [sample_btc])
        :: (number SpotBalanceData) ApiResponse fetched) = Inr ([sample_btc] @ [])"
    by (simp add: sample_spot_fetched)
  from unpriced_token_skipped [OF primary fallback sample_marks_fetched no_fallback_fetched
      spot_with spot_without, where acc = "Fin 0" and order = sample_order
        and accountReply = "ok_reply (sample_account ''250'')"] primary amount
  show ?thesis by simp
qed

subsection \<open>The futures balance\<close>

lemma futures_balance_cases:
  "futures_balance pf accountData =
     (case balances accountData of
        [] \<Rightarrow> pf ''0''
      | b # rest \<Rightarrow> if walletBalance b = [] then pf ''0'' else pf (walletBalance b))"
  by (simp add: futures_balance_def first_entry_def or_string_def split: list.splits)

lemma empty_wallet_total:
  "fetchTotalBalance parseFloat_digits order (ok_reply (sample_account []))
     (ok_reply (sample_spot [sample_btc, sample_usdc])) (ok_reply sample_marks) (ok_reply [])
   = Inr \<lparr>spotBalance = Fin 100000, futuresBalance = Fin 0, totalBalance = Fin 100000\<rparr>"
  by (simp add: fetchTotalBalance_success [OF sample_account_fetched sample_spot_fetched
        sample_marks_fetched no_fallback_fetched] sample_primary_prices sample_spot_sum
      sample_futures)

text \<open>
  C9, as amended. In \<^const>\<open>fetchTotalBalance\<close>, the \<^const>\<open>futuresBalance\<close> of the result is
  the parsed \<^const>\<open>walletBalance\<close> of the first entry of the balances list of the futures
  account when that string is not empty, and it is zero, the parse of \<^verbatim>\<open>'0'\<close>, when the list
  is empty or the \<^const>\<open>walletBalance\<close> of its first entry is the empty string.
\<close>

theorem futuresBalance_first_entry:
  assumes "fetchTotalBalance pf order accountReply spotReply markReply fallbackReply = Inr r"
    and zero: "pf ''0'' = 0"
  shows "\<exists>accountData. fetchAccountDetails accountReply = Inr accountData
           \<and> futuresBalance r =
               (case balances accountData of
                  [] \<Rightarrow> 0
                | b # rest \<Rightarrow> if walletBalance b = [] then 0 else pf (walletBalance b))"
  using assms(1)
  by (elim fetchTotalBalance_Inr) (simp add: futures_balance_cases zero split: list.splits)

theorem futuresBalance_first_entry_witness:
  "parseFloat_digits ''0'' = 0
   \<and> map walletBalance (balances (sample_account ''250'')) = [''250'']
   \<and> fetchAccountDetails (ok_reply (sample_account ''250'')) = Inr (sample_account ''250'')
   \<and> fetchTotalBalance parseFloat_digits sample_order (ok_reply (sample_account ''250''))
        (ok_reply (sample_spot [sample_btc, sample_usdc])) (ok_reply sample_marks) (ok_reply [])
       = Inr \<lparr>spotBalance = Fin 100000, futuresBalance = Fin 250, totalBalance = Fin 100250\<rparr>
   \<and> parseFloat_digits ''250'' = Fin 250"
proof -
  have zero: "parseFloat_digits ''0'' = 0"
    by (simp add: parseFloat_digits_def zero_number_def)
  have parsed: "parseFloat_digits ''250'' = Fin 250"
    by (simp add: parseFloat_digits_def)
  have wallet: "map walletBalance (balances (sample_account ''250'')) = [''250'']"
    by (simp add: sample_account_def)
  have "\<exists>accountData :: unit AccountDetailsData.
          fetchAccountDetails (ok_reply (sample_account ''250'')) = Inr accountData"
    using futuresBalance_first_entry [OF sample_total zero] by blast
  with zero wallet parsed sample_total sample_account_fetched show ?thesis by simp
qed

text \<open>
  The claim as it was stated, that the futures balance is the parsed \<^const>\<open>walletBalance\<close>
  of the first entry whenever there is one, fails on a first entry whose
  \<^const>\<open>walletBalance\<close> is the empty string: \<^verbatim>\<open>'' || '0'\<close> is \<^verbatim>\<open>'0'\<close>, so the balance is 0, while
  the empty string parses to \<^verbatim>\<open>NaN\<close>.
\<close>

theorem futuresBalance_empty_wallet_counterexample:
  "map walletBalance (balances (sample_account [])) = [[]]
   \<and> parseFloat_digits [] = NaN
   \<and> fetchTotalBalance parseFloat_digits sample_order (ok_reply (sample_account []))
        (ok_reply (sample_spot [sample_btc, sample_usdc])) (ok_reply sample_marks) (ok_reply [])
       = Inr \<lparr>spotBalance = Fin 100000, futuresBalance = Fin 0, totalBalance = Fin 100000\<rparr>
   \<and> Fin 0 \<noteq> NaN"
  using empty_wallet_total by (simp add: sample_account_def parseFloat_digits_def)

subsection \<open>Failures of the upstream sources\<close>

lemma upstream_failure_account:
  "upstream_failure reply \<Longrightarrow> \<exists>e. fetchAccountDetails reply = Inl e"
  by (auto simp: upstream_failure_def fetchAccountDetails_def split: sum.splits if_splits)

lemma upstream_failure_spot:
  "upstream_failure reply \<Longrightarrow> \<exists>e. fetchSpotBalance reply = Inl e"
  by (auto simp: upstream_failure_def fetchSpotBalance_def split: sum.splits if_splits)

lemma upstream_failure_marks:
  "upstream_failure reply \<Longrightarrow> \<exists>e. fetchMarkPrices reply = Inl e"
  by (auto simp: upstream_failure_def fetchMarkPrices_def split: sum.splits if_splits)

lemma fallback_failure_empty:
  "upstream_failure reply \<Longrightarrow> fetchFallbackMarkPrices pf reply = Inr Map.empty"
  by (auto simp: upstream_failure_def fetchFallbackMarkPrices_def split: sum.splits if_splits)

lemma sample_failures:
  "upstream_failure (status_reply txt)"
  "c \<noteq> 0 \<Longrightarrow> upstream_failure (code_reply c d)"
  by (simp_all add: upstream_failure_def status_reply_def code_reply_def)

lemma sample_failed_retrievals:
  "fetchAccountDetails (code_reply 3 (sample_account wallet))
     = Inl (Error ''API error: Failed to fetch account details'')"
  "fetchSpotBalance (code_reply 500 (sample_spot spotTokens))
     = Inl (Error ''API error: Failed to fetch spot balance'')"
  "fetchSpotBalance (status_reply ''Internal Server Error'')
     = Inl (Error ''Failed to fetch spot balance: Internal Server Error'')"
  by (simp_all add: fetchAccountDetails_def fetchSpotBalance_def code_reply_def status_reply_def)

lemma retrievals_rejected_length [simp]:
  "length (retrievals_rejected pf accountReply spotReply markReply fallbackReply) = 4"
  by (simp add: retrievals_rejected_def)

lemma fetchTotalBalance_first_to_reject:
  assumes split: "order @ [0, 1, 2, 3] = before @ i # after"
    and i: "i < 4"
      "retrievals_rejected pf accountReply spotReply markReply fallbackReply ! i = Some e"
    and earlier: "\<forall>j \<in> set before. j < 4 \<longrightarrow>
      retrievals_rejected pf accountReply spotReply markReply fallbackReply ! j = None"
  shows "fetchTotalBalance pf order accountReply spotReply markReply fallbackReply = Inl e"
proof -
  let ?rejected = "retrievals_rejected pf accountReply spotReply markReply fallbackReply"
  have first: "first_rejection (order @ [0, 1, 2, 3]) ?rejected = Some e"
    unfolding split using i earlier by (intro first_rejection_first) simp_all
  have "Some e \<in> set ?rejected"
    using first by (rule first_rejection_mem)
  then have "fetchAccountDetails accountReply = Inl e \<or> fetchSpotBalance spotReply = Inl e
       \<or> fetchMarkPrices markReply = Inl e \<or> fetchFallbackMarkPrices pf fallbackReply = Inl e"
    by (auto simp: retrievals_rejected_def rejection_of_def split: sum.splits)
  from fetchTotalBalance_rejects [OF this, of order] obtain e' where
    e': "fetchTotalBalance pf order accountReply spotReply markReply fallbackReply = Inl e'"
    by blast
  from fetchTotalBalance_first [OF e'] first have "e' = e" by simp
  with e' show ?thesis by simp
qed

text \<open>
  C7, as amended. For each of the retrievals of the aggregation other than the fallback
  source (the futures account details, the spot balances, the primary mark prices), a
  response with a non-success HTTP status or a JSON body whose \<^verbatim>\<open>code\<close> is not zero raises
  an error, and \<^const>\<open>fetchTotalBalance\<close> then returns no result, partial or other: it
  rejects. The error that propagates out of it is the one of the retrieval that rejects
  first, so the error of a retrieval propagates when no other retrieval has rejected
  before it.
\<close>

theorem upstream_failure_aborts:
  assumes "upstream_failure accountReply \<or> upstream_failure spotReply \<or> upstream_failure markReply"
  shows "(upstream_failure accountReply \<longrightarrow> (\<exists>e. fetchAccountDetails accountReply = Inl e))
       \<and> (upstream_failure spotReply \<longrightarrow> (\<exists>e. fetchSpotBalance spotReply = Inl e))
       \<and> (upstream_failure markReply \<longrightarrow> (\<exists>e. fetchMarkPrices markReply = Inl e))
       \<and> (\<exists>e. fetchTotalBalance pf order accountReply spotReply markReply fallbackReply = Inl e
              \<and> first_rejection (order @ [0, 1, 2, 3])
                   (retrievals_rejected pf accountReply spotReply markReply fallbackReply)
                   = Some e)
       \<and> (\<forall>before i after e.
             order @ [0, 1, 2, 3] = before @ i # after \<and> i < 4
           \<and> retrievals_rejected pf accountReply spotReply markReply fallbackReply ! i = Some e
           \<and> (\<forall>j \<in> set before. j < 4 \<longrightarrow>
                 retrievals_rejected pf accountReply spotReply markReply fallbackReply ! j = None)
           \<longrightarrow> fetchTotalBalance pf order accountReply spotReply markReply fallbackReply = Inl e)"
proof -
  from assms obtain e1 e2 e3 where
    "fetchAccountDetails accountReply = Inl e1 \<or> fetchSpotBalance spotReply = Inl e2
       \<or> fetchMarkPrices markReply = Inl e3"
    using upstream_failure_account upstream_failure_spot upstream_failure_marks by blast
  then have "fetchAccountDetails accountReply = Inl e1 \<or> fetchSpotBalance spotReply = Inl e2
       \<or> fetchMarkPrices markReply = Inl e3
       \<or> fetchFallbackMarkPrices pf fallbackReply = Inl undefined"
    by blast
  from fetchTotalBalance_rejects [OF this, of order] obtain e where
    e: "fetchTotalBalance pf order accountReply spotReply markReply fallbackReply = Inl e"
    by blast
  have raised: "(upstream_failure accountReply \<longrightarrow> (\<exists>e. fetchAccountDetails accountReply = Inl e))
       \<and> (upstream_failure spotReply \<longrightarrow> (\<exists>e. fetchSpotBalance spotReply = Inl e))
       \<and> (upstream_failure markReply \<longrightarrow> (\<exists>e. fetchMarkPrices markReply = Inl e))"
    using upstream_failure_account upstream_failure_spot upstream_failure_marks by blast
  have out: "\<exists>e. fetchTotalBalance pf order accountReply spotReply markReply fallbackReply = Inl e
              \<and> first_rejection (order @ [0, 1, 2, 3])
                   (retrievals_rejected pf accountReply spotReply markReply fallbackReply)
                   = Some e"
    using e fetchTotalBalance_first [OF e] by blast
  have first: "\<forall>before i after e.
             order @ [0, 1, 2, 3] = before @ i # after \<and> i < 4
           \<and> retrievals_rejected pf accountReply spotReply markReply fallbackReply ! i = Some e
           \<and> (\<forall>j \<in> set before. j < 4 \<longrightarrow>
                 retrievals_rejected pf accountReply spotReply markReply fallbackReply ! j = None)
           \<longrightarrow> fetchTotalBalance pf order accountReply spotReply markReply fallbackReply = Inl e"
    using fetchTotalBalance_first_to_reject by blast
  from raised out first show ?thesis by blast
qed

theorem upstream_failure_aborts_witness:
  "upstream_failure (code_reply 500 (sample_spot [sample_btc, sample_usdc]))
   \<and> fetchSpotBalance (code_reply 500 (sample_spot [sample_btc, sample_usdc]))
       = Inl (Error ''API error: Failed to fetch spot balance'')
   \<and> fetchTotalBalance parseFloat_digits sample_order (ok_reply (sample_account ''250''))
        (code_reply 500 (sample_spot [sample_btc, sample_usdc])) (ok_reply sample_marks)
        (ok_reply [])
       = Inl (Error ''API error: Failed to fetch spot balance'')"
proof -
  have failure: "upstream_failure (code_reply 500 (sample_spot [sample_btc, sample_usdc]))"
    by (simp add: sample_failures)
  have rejected: "retrievals_rejected parseFloat_digits (ok_reply (sample_account ''250''))
        (code_reply 500 (sample_spot [sample_btc, sample_usdc])) (ok_reply sample_marks)
        (ok_reply [])
      = [None, Some (Error ''API error: Failed to fetch spot balance''), None, None]"
    by (simp add: retrievals_rejected_def rejection_of_def sample_account_fetched
        sample_failed_retrievals sample_marks_fetched no_fallback_fetched)
  from upstream_failure_aborts [where pf = parseFloat_digits and order = sample_order
        and accountReply = "ok_reply (sample_account ''250'')"
        and markReply = "ok_reply sample_marks" and fallbackReply = "ok_reply []",
      OF disjI2 [OF disjI1 [OF failure]], THEN conjunct2, THEN conjunct2, THEN conjunct2,
      THEN conjunct1]
  have "fetchTotalBalance parseFloat_digits sample_order (ok_reply (sample_account ''250''))
        (code_reply 500 (sample_spot [sample_btc, sample_usdc])) (ok_reply sample_marks)
        (ok_reply [])
       = Inl (Error ''API error: Failed to fetch spot balance'')"
    unfolding rejected by (auto simp: sample_order_def)
  with failure show ?thesis by (simp add: sample_failed_retrievals)
qed

text \<open>
  The claim as it was stated, that the error raised by a failing retrieval propagates out
  of \<^const>\<open>fetchTotalBalance\<close>, fails when two retrievals fail: the account details answer
  with the code 3 and raise their error, the spot balances answer with the status 500 and
  reject before them, and the error that comes out is the one of the spot balances. Were
  the account details the first to reject, the error of the spot balances would be the
  one that is dropped.
\<close>

theorem second_rejection_counterexample:
  "upstream_failure (code_reply 3 (sample_account ''250''))
   \<and> fetchAccountDetails (code_reply 3 (sample_account ''250''))
       = Inl (Error ''API error: Failed to fetch account details'')
   \<and> fetchTotalBalance parseFloat_digits sample_order (code_reply 3 (sample_account ''250''))
        (status_reply ''Internal Server Error'') (ok_reply sample_marks) (ok_reply [])
       = Inl (Error ''Failed to fetch spot balance: Internal Server Error'')
   \<and> Error ''Failed to fetch spot balance: Internal Server Error''
       \<noteq> Error ''API error: Failed to fetch account details''
   \<and> upstream_failure (status_reply ''Internal Server Error'')
   \<and> fetchSpotBalance (status_reply ''Internal Server Error'')
       = Inl (Error ''Failed to fetch spot balance: Internal Server Error'')
   \<and> fetchTotalBalance parseFloat_digits [0, 1, 2, 3] (code_reply 3 (sample_account ''250''))
        (status_reply ''Internal Server Error'') (ok_reply sample_marks) (ok_reply [])
       = Inl (Error ''API error: Failed to fetch account details'')"
  by (simp add: sample_failures fetchTotalBalance_def promise_all4_def rejection_of_def
      sample_order_def sample_failed_retrievals sample_marks_fetched no_fallback_fetched)

lemma fallback_failure_degrades:
  assumes "upstream_failure fallbackReply"
  shows "fetchFallbackMarkPrices pf fallbackReply = Inr Map.empty
       \<and> (\<forall>accountData spotTokens markPrices.
             fetchAccountDetails accountReply = Inr accountData
           \<and> fetchSpotBalance spotReply = Inr spotTokens
           \<and> fetchMarkPrices markReply = Inr markPrices \<longrightarrow>
             (\<exists>r. fetchTotalBalance pf order accountReply spotReply markReply fallbackReply
                    = Inr r))
       \<and> (\<forall>e. fetchTotalBalance pf order accountReply spotReply markReply fallbackReply = Inl e
             \<longrightarrow> fetchAccountDetails accountReply = Inl e \<or> fetchSpotBalance spotReply = Inl e
               \<or> fetchMarkPrices markReply = Inl e)"
proof -
  have empty: "fetchFallbackMarkPrices pf fallbackReply = Inr Map.empty"
    using assms by (rule fallback_failure_empty)
  moreover have "\<exists>r. fetchTotalBalance pf order accountReply spotReply markReply fallbackReply
        = Inr r"
    if "fetchAccountDetails accountReply = Inr accountData"
      "fetchSpotBalance spotReply = Inr spotTokens" "fetchMarkPrices markReply = Inr markPrices"
    for accountData spotTokens markPrices
    using fetchTotalBalance_success [OF that empty] by blast
  moreover have "fetchAccountDetails accountReply = Inl e \<or> fetchSpotBalance spotReply = Inl e
           \<or> fetchMarkPrices markReply = Inl e"
    if "fetchTotalBalance pf order accountReply spotReply markReply fallbackReply = Inl e" for e
    using fetchTotalBalance_Inl [OF that] empty by simp
  ultimately show ?thesis by blast
qed

text \<open>
  C6. Every failure of the fallback mark-price source is to become an empty price map in
  \<^const>\<open>fetchFallbackMarkPrices\<close> and not a thrown error, so that it never aborts the
  enclosing aggregation. The two guards of the function do this for a non-success HTTP
  status and for a \<^verbatim>\<open>code\<close> that is not zero (\<open>fallback_failure_degrades\<close>). The function
  misses the failures that come as a rejection: when the request of the fallback source
  is rejected, or when its body is not JSON, \<^const>\<open>fetchFallbackMarkPrices\<close> rejects, and
  \<^const>\<open>fetchTotalBalance\<close> is aborted with that error although its three other retrievals
  succeed.
\<close>

theorem fallback_rejection_aborts:
  "fetchFallbackMarkPrices parseFloat_digits (Inl NetworkFailure) = Inl NetworkFailure
   \<and> fetchTotalBalance parseFloat_digits sample_order (ok_reply (sample_account ''250''))
        (ok_reply (sample_spot [sample_btc, sample_usdc])) (ok_reply sample_marks)
        (Inl NetworkFailure)
       = Inl NetworkFailure
   \<and> fetchFallbackMarkPrices parseFloat_digits
        (Inr \<lparr>ok = True, statusText = ''OK'', json = Inl InvalidJson\<rparr>) = Inl InvalidJson
   \<and> fetchTotalBalance parseFloat_digits sample_order (ok_reply (sample_account ''250''))
        (ok_reply (sample_spot [sample_btc, sample_usdc])) (ok_reply sample_marks)
        (Inr \<lparr>ok = True, statusText = ''OK'', json = Inl InvalidJson\<rparr>)
       = Inl InvalidJson"
  by (simp add: fetchTotalBalance_def promise_all4_def rejection_of_def sample_order_def
      fetchFallbackMarkPrices_def sample_account_fetched sample_spot_fetched
      sample_marks_fetched)

subsection \<open>The pages of positions\<close>

lemma loop_pages:
  "pages_from endpoint n cursor pgs \<Longrightarrow>
     fetchAllPositions_loop endpoint n acc cursor
       = Some (Inr (acc @ concat (map fst pgs)), n + length pgs)"
proof (induction arbitrary: acc rule: pages_from.induct)
  case (last_page endpoint n cursor positions nextCursor)
  then show ?case
    by (subst fetchAllPositions_loop.simps) simp
next
  case (next_page endpoint n cursor positions nextCursor pgs)
  show ?case
    by (subst fetchAllPositions_loop.simps)
      (simp add: next_page.hyps(1,2) next_page.IH)
qed

lemma pages_from_cursors:
  "pages_from endpoint n cursor pgs \<Longrightarrow>
     pgs \<noteq> [] \<and> \<not> truthy (snd (last pgs)) \<and> (\<forall>pg \<in> set (butlast pgs). truthy (snd pg))"
  by (induction rule: pages_from.induct) auto

lemma two_pages_first: "fetchPositions (two_pages 0) None = Inr ([1, 2], Some ''c1'')"
  by (simp add: fetchPositions_def two_pages_def truthy_def)

lemma two_pages_second: "fetchPositions (two_pages (Suc 0)) (Some ''c1'') = Inr ([3], None)"
  by (simp add: fetchPositions_def two_pages_def truthy_def)

lemma two_pages_from: "pages_from two_pages 0 None [([1, 2], Some ''c1''), ([3], None)]"
proof (rule pages_from.next_page)
  show "fetchPositions (two_pages 0) None = Inr ([1, 2], Some ''c1'')"
    by (rule two_pages_first)
  show "truthy (Some ''c1'')"
    by (simp add: truthy_def)
  show "pages_from two_pages (Suc 0) (Some ''c1'') [([3], None)]"
  proof (rule pages_from.last_page)
    show "fetchPositions (two_pages (Suc 0)) (Some ''c1'') = Inr ([3], None)"
      by (rule two_pages_second)
    show "\<not> truthy None"
      by (simp add: truthy_def)
  qed
qed

lemma loop_returns_pages:
  fixes endpoint :: "nat \<Rightarrow> string option \<Rightarrow> 'p PositionsResponse fetched"
  assumes "fetchAllPositions_loop endpoint n acc cursor = Some (Inr res, m)"
  shows "\<exists>pgs. pages_from endpoint n cursor pgs \<and> res = acc @ concat (map fst pgs)
               \<and> m = n + length pgs"
proof -
  define P where "P = (\<lambda>(endpoint :: nat \<Rightarrow> string option \<Rightarrow> 'p PositionsResponse fetched)
      n acc cursor (y :: (error + 'p list) \<times> nat).
        \<forall>res m. y = (Inr res, m) \<longrightarrow>
          (\<exists>pgs. pages_from endpoint n cursor pgs \<and> res = acc @ concat (map fst pgs)
               \<and> m = n + length pgs))"
  have "P endpoint n acc cursor (Inr res, m)"
  proof (rule fetchAllPositions_loop.raw_induct [OF _ assms])
    fix loop and endpoint :: "nat \<Rightarrow> string option \<Rightarrow> 'p PositionsResponse fetched"
      and n acc cursor y
    assume IH: "\<And>endpoint n acc cursor y. loop endpoint n acc cursor = Some y
                  \<Longrightarrow> P endpoint n acc cursor y"
      and body: "(case fetchPositions (endpoint n) cursor of
                    Inl e \<Rightarrow> Some (Inl e, Suc n)
                  | Inr (positions, nextCursor) \<Rightarrow>
                      if \<not> truthy nextCursor then Some (Inr (acc @ positions), Suc n)
                      else loop endpoint (Suc n) (acc @ positions) nextCursor) = Some y"
    show "P endpoint n acc cursor y"
    proof (cases "fetchPositions (endpoint n) cursor")
      case (Inl e)
      with body show ?thesis by (auto simp: P_def)
    next
      case (Inr page)
      obtain positions nextCursor where page: "page = (positions, nextCursor)" by (cases page)
      show ?thesis
      proof (cases "truthy nextCursor")
        case False
        with body Inr page have "y = (Inr (acc @ positions), Suc n)" by simp
        moreover have "pages_from endpoint n cursor [(positions, nextCursor)]"
          using Inr page False by (auto intro: pages_from.last_page)
        ultimately show ?thesis unfolding P_def by fastforce
      next
        case True
        with body Inr page have rec: "loop endpoint (Suc n) (acc @ positions) nextCursor = Some y"
          by simp
        show ?thesis
          unfolding P_def
        proof (intro allI impI)
          fix res m assume y: "y = (Inr res, m)"
          from IH [OF rec] y obtain pgs where
            pgs: "pages_from endpoint (Suc n) nextCursor pgs"
              "res = (acc @ positions) @ concat (map fst pgs)" "m = Suc n + length pgs"
            unfolding P_def by blast
          have "pages_from endpoint n cursor ((positions, nextCursor) # pgs)"
            using Inr page True pgs(1) by (auto intro: pages_from.next_page)
          with pgs(2,3) show "\<exists>pgs. pages_from endpoint n cursor pgs
              \<and> res = acc @ concat (map fst pgs) \<and> m = n + length pgs"
            by (intro exI [of _ "(positions, nextCursor) # pgs"]) simp
        qed
      qed
    qed
  qed
  then show ?thesis unfolding P_def by blast
qed

text \<open>
  C8. When the positions endpoint answers the requests of \<^const>\<open>fetchAllPositions\<close> with the
  pages \<open>pgs\<close>, of which the last is the first to carry no \<^verbatim>\<open>next_cursor\<close> (an empty one
  counts as none), the call returns: its result is the concatenation of the items of the
  pages, in the order of the pages and with the items of each page in their order, and it
  has made as many requests as there are pages, none after the page without a cursor.
  Whenever the call returns positions, they are such a concatenation.
\<close>

theorem fetchAllPositions_pages:
  fixes endpoint :: "nat \<Rightarrow> string option \<Rightarrow> 'p PositionsResponse fetched"
  shows "(pages_from endpoint 0 None pgs \<longrightarrow>
            fetchAllPositions endpoint = Some (Inr (concat (map fst pgs)), length pgs)
          \<and> pgs \<noteq> [] \<and> \<not> truthy (snd (last pgs))
          \<and> (\<forall>pg \<in> set (butlast pgs). truthy (snd pg)))
       \<and> (fetchAllPositions endpoint = Some (Inr res, m) \<longrightarrow>
            (\<exists>pgs'. pages_from endpoint 0 None pgs' \<and> res = concat (map fst pgs')
                    \<and> m = length pgs'))"
proof (intro conjI impI)
  assume pages: "pages_from endpoint 0 None pgs"
  show "fetchAllPositions endpoint = Some (Inr (concat (map fst pgs)), length pgs)"
    using loop_pages [OF pages, of "[]"] by (simp add: fetchAllPositions_def)
  show "pgs \<noteq> []" "\<not> truthy (snd (last pgs))" "\<forall>pg \<in> set (butlast pgs). truthy (snd pg)"
    using pages_from_cursors [OF pages] by simp_all
next
  assume "fetchAllPositions endpoint = Some (Inr res, m)"
  then show "\<exists>pgs'. pages_from endpoint 0 None pgs' \<and> res = concat (map fst pgs')
                    \<and> m = length pgs'"
    using loop_returns_pages [of endpoint 0 "[]" None res m] by (simp add: fetchAllPositions_def)
qed

theorem fetchAllPositions_pages_witness:
  "pages_from two_pages 0 None [([1, 2], Some ''c1''), ([3], None)]
   \<and> fetchAllPositions two_pages = Some (Inr [1, 2, 3], 2)"
  using fetchAllPositions_pages [THEN conjunct1, THEN mp, OF two_pages_from] two_pages_from
  by simp

subsection \<open>The tokens of the detailed balance\<close>

lemma detailed_token_step_eq:
  assumes "\<not> 0 < pf ''0''" and "\<not> 0 < pf []"
  shows "detailed_token_step pf acc tokenData
           = acc @ (case positive_token pf tokenData of None \<Rightarrow> [] | Some listed \<Rightarrow> [listed])"
  using assms
  by (simp add: detailed_token_step_def positive_token_def listed_token_def or_string_def Let_def
      split: option.splits)

lemma detailed_tokens_foldl:
  assumes "\<not> 0 < pf ''0''" and "\<not> 0 < pf []"
  shows "foldl (detailed_token_step pf) acc tokenList
           = acc @ List.map_filter (positive_token pf) tokenList"
proof (induction tokenList arbitrary: acc)
  case Nil
  then show ?case by (simp add: List.map_filter_simps)
next
  case (Cons tokenData tokenList)
  have "foldl (detailed_token_step pf) acc (tokenData # tokenList)
          = foldl (detailed_token_step pf) (detailed_token_step pf acc tokenData) tokenList"
    by simp
  also have "\<dots> = detailed_token_step pf acc tokenData
                     @ List.map_filter (positive_token pf) tokenList"
    by (rule Cons.IH)
  also have "\<dots> = acc @ List.map_filter (positive_token pf) (tokenData # tokenList)"
    by (simp add: detailed_token_step_eq [OF assms] List.map_filter_simps split: option.splits)
  finally show ?case .
qed

lemma detailed_tokens_eq:
  assumes "\<not> 0 < pf ''0''" and "\<not> 0 < pf []"
  shows "detailed_tokens pf tokenList = List.map_filter (positive_token pf) tokenList"
  unfolding detailed_tokens_def detailed_tokens_foldl [OF assms] by simp

lemma promise_all2_Inr:
  "promise_all2 order a b = Inr v \<longleftrightarrow> (\<exists>x y. a = Inr x \<and> b = Inr y \<and> v = (x, y))"
proof
  assume "promise_all2 order a b = Inr v"
  then show "\<exists>x y. a = Inr x \<and> b = Inr y \<and> v = (x, y)"
    by (auto simp: promise_all2_def split: option.splits sum.splits)
next
  assume "\<exists>x y. a = Inr x \<and> b = Inr y \<and> v = (x, y)"
  then obtain x y where all: "a = Inr x" "b = Inr y" "v = (x, y)"
    by blast
  have "first_rejection (order @ [0, 1]) [rejection_of a, rejection_of b] = None"
    by (rule first_rejection_all_None) (simp add: all rejection_of_def)
  then show "promise_all2 order a b = Inr v"
    by (simp add: promise_all2_def all)
qed

lemma sample_detailed_bodies:
  "promise_all2 order (then_json (ok_reply sample_raw_futures)) (then_json (ok_reply sample_raw_spot))
     = Inr (\<lparr>code = 0, data = sample_raw_futures\<rparr>, \<lparr>code = 0, data = sample_raw_spot\<rparr>)"
  by (simp add: promise_all2_Inr then_json_def ok_reply_def)

lemma sample_detailed:
  "fetchDetailedBalance parseFloat_digits order (ok_reply sample_raw_futures) (ok_reply sample_raw_spot)
   = Inr \<lparr>totalUsdValue = Fin 100253,
          tokens = [\<lparr>token = ''BTC'', tb_coin = ''vBTC'', tb_balance = Fin 2, usdValue = Fin 100000\<rparr>,
                    \<lparr>token = ''ETH'', tb_coin = ''wETH'', tb_balance = Fin 3, usdValue = Fin 3\<rparr>],
          db_futuresBalance = Fin 250, db_spotBalance = Fin 100003\<rparr>"
  unfolding fetchDetailedBalance_def sample_detailed_bodies
  by (simp add: sample_raw_futures_def sample_raw_spot_def detailed_tokens_def detailed_token_step_def
      first_entry_def or_string_def parseFloat_digits_def zero_number_def Let_def)

text \<open>
  C10. The \<^const>\<open>tokens\<close> array returned by \<^const>\<open>fetchDetailedBalance\<close> holds exactly the
  spot tokens whose balance parses to a strictly positive number, in their order. The name
  of each is its coin without a single leading \<^verbatim>\<open>v\<close> or \<^verbatim>\<open>w\<close>, a rule other than that of
  \<^const>\<open>normalizeTokenName\<close>, which strips a \<^verbatim>\<open>v\<close> only; its USD value is the one provided
  upstream when that parses to a positive number, and the balance itself otherwise. Of
  \<^verbatim>\<open>parseFloat\<close> the statement needs that neither \<^verbatim>\<open>'0'\<close> nor the empty string parses to a
  positive number.
\<close>

theorem fetchDetailedBalance_tokens:
  assumes "fetchDetailedBalance pf order futuresReply spotReply = Inr r"
    and "\<not> 0 < pf ''0''" and "\<not> 0 < pf []"
  shows "(\<exists>futuresResponse spotResponse.
            then_json futuresReply = Inr futuresResponse \<and> then_json spotReply = Inr spotResponse
          \<and> tokens r = List.map_filter (positive_token pf)
                (case Option.bind (data spotResponse) rs_spotBalance of
                   None \<Rightarrow> [] | Some tokenList \<Rightarrow> tokenList))
       \<and> replace_leading_vw ''wETH'' = ''ETH'' \<and> normalizeTokenName ''wETH'' = ''wETH''"
proof -
  from assms(1) obtain futuresResponse spotResponse where
    bodies: "then_json futuresReply = Inr futuresResponse" "then_json spotReply = Inr spotResponse"
    and listed: "tokens r = (case Option.bind (data spotResponse) rs_spotBalance of
                              None \<Rightarrow> []
                            | Some tokenList \<Rightarrow> detailed_tokens pf tokenList)"
    by (auto simp: fetchDetailedBalance_def promise_all2_Inr Let_def split: sum.splits if_splits)
  have "tokens r = List.map_filter (positive_token pf)
                (case Option.bind (data spotResponse) rs_spotBalance of
                   None \<Rightarrow> [] | Some tokenList \<Rightarrow> tokenList)"
    unfolding listed
    by (simp add: detailed_tokens_eq [OF assms(2,3)] List.map_filter_simps split: option.splits)
  with bodies have "\<exists>futuresResponse spotResponse.
            then_json futuresReply = Inr futuresResponse \<and> then_json spotReply = Inr spotResponse
          \<and> tokens r = List.map_filter (positive_token pf)
                (case Option.bind (data spotResponse) rs_spotBalance of
                   None \<Rightarrow> [] | Some tokenList \<Rightarrow> tokenList)"
    by blast
  moreover have "replace_leading_vw ''wETH'' = ''ETH''"
    by simp
  moreover have "normalizeTokenName ''wETH'' = ''wETH''"
    by (simp add: normalizeTokenName_def)
  ultimately show ?thesis by simp
qed

theorem fetchDetailedBalance_tokens_witness:
  "\<not> 0 < parseFloat_digits ''0'' \<and> \<not> 0 < parseFloat_digits []
   \<and> fetchDetailedBalance parseFloat_digits [1, 0] (ok_reply sample_raw_futures)
        (ok_reply sample_raw_spot)
       = Inr \<lparr>totalUsdValue = Fin 100253,
          tokens = [\<lparr>token = ''BTC'', tb_coin = ''vBTC'', tb_balance = Fin 2, usdValue = Fin 100000\<rparr>,
                    \<lparr>token = ''ETH'', tb_coin = ''wETH'', tb_balance = Fin 3, usdValue = Fin 3\<rparr>],
          db_futuresBalance = Fin 250, db_spotBalance = Fin 100003\<rparr>
   \<and> List.map_filter (positive_token parseFloat_digits)
        (case Option.bind sample_raw_spot rs_spotBalance of None \<Rightarrow> [] | Some tokenList \<Rightarrow> tokenList)
       = [\<lparr>token = ''BTC'', tb_coin = ''vBTC'', tb_balance = Fin 2, usdValue = Fin 100000\<rparr>,
          \<lparr>token = ''ETH'', tb_coin = ''wETH'', tb_balance = Fin 3, usdValue = Fin 3\<rparr>]"
proof -
  have zero: "\<not> 0 < parseFloat_digits ''0''"
    by (simp add: parseFloat_digits_def zero_number_def)
  have nan: "\<not> 0 < parseFloat_digits []"
    by (simp add: parseFloat_digits_def zero_number_def)
  have spot: "then_json (ok_reply sample_raw_spot) = Inr \<lparr>code = 0, data = sample_raw_spot\<rparr>"
    by (simp add: then_json_def ok_reply_def)
  from fetchDetailedBalance_tokens [OF sample_detailed zero nan, THEN conjunct1]
  have "tokens \<lparr>totalUsdValue = Fin 100253,
          tokens = [\<lparr>token = ''BTC'', tb_coin = ''vBTC'', tb_balance = Fin 2, usdValue = Fin 100000\<rparr>,
                    \<lparr>token = ''ETH'', tb_coin = ''wETH'', tb_balance = Fin 3, usdValue = Fin 3\<rparr>],
          db_futuresBalance = Fin 250, db_spotBalance = Fin 100003\<rparr>
        = List.map_filter (positive_token parseFloat_digits)
            (case Option.bind sample_raw_spot rs_spotBalance of
               None \<Rightarrow> [] | Some tokenList \<Rightarrow> tokenList)"
    by (auto simp: spot)
  with zero nan sample_detailed show ?thesis by simp
qed

subsection \<open>The cache\<close>

lemma consistent_empty: "consistent (empty_cache window)"
  by (simp add: consistent_def empty_cache_def)

lemma start_changed:
  "entries (snd (start key c)) = (entries c)(key \<mapsto> Pending (length (computations c)))"
  "computations (snd (start key c)) = computations c @ [(key, None)]"
  "ttl (snd (start key c)) = ttl c"
  "fst (start key c) = Awaits (length (computations c))"
  by (simp_all add: start_def Let_def)

lemma consistent_pending:
  "consistent c \<Longrightarrow> entries c k = Some (Pending h)
     \<Longrightarrow> h < length (computations c) \<and> computations c ! h = (k, None)"
  unfolding consistent_def by blast

lemma consistent_unsettled:
  "consistent c \<Longrightarrow> h < length (computations c) \<Longrightarrow> computations c ! h = (k, None)
     \<Longrightarrow> entries c k = Some (Pending h)"
  unfolding consistent_def by blast

lemma consistentI:
  assumes "\<And>k h. entries c k = Some (Pending h)
             \<Longrightarrow> h < length (computations c) \<and> computations c ! h = (k, None)"
    and "\<And>h k. h < length (computations c) \<Longrightarrow> computations c ! h = (k, None)
             \<Longrightarrow> entries c k = Some (Pending h)"
  shows "consistent c"
  unfolding consistent_def using assms by blast

lemma consistent_start:
  assumes con: "consistent c" and np: "\<forall>h. entries c key \<noteq> Some (Pending h)"
  shows "consistent (snd (start key c))"
proof (rule consistentI)
  fix k h
  assume e: "entries (snd (start key c)) k = Some (Pending h)"
  show "h < length (computations (snd (start key c)))
      \<and> computations (snd (start key c)) ! h = (k, None)"
  proof (cases "k = key")
    case True
    from e have "h = length (computations c)"
      unfolding start_changed True by simp
    then show ?thesis
      unfolding start_changed True by simp
  next
    case False
    from e have "entries c k = Some (Pending h)"
      unfolding start_changed using False by simp
    from consistent_pending [OF con this] show ?thesis
      unfolding start_changed by (simp add: nth_append)
  qed
next
  fix h k
  assume lt: "h < length (computations (snd (start key c)))"
    and un: "computations (snd (start key c)) ! h = (k, None)"
  show "entries (snd (start key c)) k = Some (Pending h)"
  proof (cases "h = length (computations c)")
    case True
    from un have "k = key"
      unfolding start_changed True by simp
    then show ?thesis
      unfolding start_changed True by simp
  next
    case False
    with lt have h: "h < length (computations c)"
      unfolding start_changed by simp
    with un have "computations c ! h = (k, None)"
      unfolding start_changed by (simp add: nth_append)
    from consistent_unsettled [OF con h this] have p: "entries c k = Some (Pending h)" .
    with np have "k \<noteq> key" by auto
    with p show ?thesis
      unfolding start_changed by simp
  qed
qed

lemma consistent_deduplicate:
  assumes "consistent c" and "deduplicate now key c = (r, c')"
  shows "consistent c'"
proof (cases "\<exists>h. entries c key = Some (Pending h)")
  case True
  with assms show ?thesis by (auto simp: deduplicate_def)
next
  case False
  then have np: "\<forall>h. entries c key \<noteq> Some (Pending h)" by simp
  from assms(2) have "c' = c \<or> c' = snd (start key c)"
    by (auto simp: deduplicate_def split: option.splits CacheEntry.splits if_splits)
  with assms(1) consistent_start [OF assms(1) np] show ?thesis by auto
qed

lemma settle_unchanged:
  assumes "\<not> (h < length (computations c) \<and> snd (computations c ! h) = None)"
  shows "settle now h result c = c"
  unfolding settle_def using assms by (simp only: if_False)

lemma settle_changed:
  assumes "h < length (computations c)" and "computations c ! h = (key, None)"
  shows "computations (settle now h result c) = (computations c)[h := (key, Some result)]"
    and "entries (settle now h result c)
           = (case result of
                Inl failure \<Rightarrow> (entries c)(key := None)
              | Inr v \<Rightarrow> (entries c)(key \<mapsto> Fulfilled v (now + ttl c)))"
    and "ttl (settle now h result c) = ttl c"
  using assms by (simp_all add: settle_def Let_def)

lemma consistent_settle:
  assumes "consistent c"
  shows "consistent (settle now h result c)"
proof (cases "h < length (computations c) \<and> snd (computations c ! h) = None")
  case False
  then show ?thesis using assms by (simp add: settle_unchanged)
next
  case True
  then obtain key where h: "h < length (computations c)" "computations c ! h = (key, None)"
    by (cases "computations c ! h") auto
  from assms h have pend: "entries c key = Some (Pending h)"
    by (auto dest: consistent_unsettled)
  note s = settle_changed [OF h, of now result]
  have other: "entries (settle now h result c) k = entries c k" if "k \<noteq> key" for k
    using that by (simp add: s(2) split: sum.splits)
  have notp: "entries (settle now h result c) key \<noteq> Some (Pending h')" for h'
    by (simp add: s(2) split: sum.splits)
  show ?thesis
  proof (rule consistentI)
    fix k h'
    assume e: "entries (settle now h result c) k = Some (Pending h')"
    then have k: "k \<noteq> key" using notp by auto
    with e other have "entries c k = Some (Pending h')" by simp
    with assms have h': "h' < length (computations c)" "computations c ! h' = (k, None)"
      by (auto dest: consistent_pending)
    with h k have "h' \<noteq> h" by auto
    with h' show "h' < length (computations (settle now h result c))
        \<and> computations (settle now h result c) ! h' = (k, None)"
      by (simp add: s(1))
  next
    fix h' k
    assume a1: "h' < length (computations (settle now h result c))"
      and a2: "computations (settle now h result c) ! h' = (k, None)"
    have ne: "h' \<noteq> h" using h a1 a2 by (auto simp: s(1))
    with a1 a2 have h': "h' < length (computations c)" "computations c ! h' = (k, None)"
      by (simp_all add: s(1))
    with assms have p: "entries c k = Some (Pending h')"
      by (auto dest: consistent_unsettled)
    with pend ne have "k \<noteq> key" by auto
    with p other show "entries (settle now h result c) k = Some (Pending h')" by simp
  qed
qed

lemma consistent_step:
  assumes con: "consistent c" and st: "step ev c = (r, c')"
  shows "consistent c'"
proof (cases ev)
  case (Call now key)
  with st obtain r' where "deduplicate now key c = (r', c')"
    by (auto split: prod.splits)
  with con show ?thesis by (rule consistent_deduplicate)
next
  case (Settle now h result)
  with st have "c' = settle now h result c" by simp
  with con show ?thesis by (simp add: consistent_settle)
qed

lemma run_Cons:
  "run (ev # evs) c = (rs, c'')
     \<longleftrightarrow> (\<exists>r c' rs'. step ev c = (r, c') \<and> run evs c' = (rs', c'') \<and> rs = r # rs')"
  by (auto split: prod.splits)

lemma consistent_run:
  assumes "consistent c" and "run evs c = (rs, c')"
  shows "consistent c'"
  using assms
proof (induction evs arbitrary: c rs)
  case Nil
  then show ?case by simp
next
  case (Cons ev evs)
  from Cons.prems(2) obtain r c1 rs1 where
    st: "step ev c = (r, c1)" and rest: "run evs c1 = (rs1, c')"
    unfolding run_Cons by blast
  from Cons.IH [OF consistent_step [OF Cons.prems(1) st] rest] show ?case .
qed

lemma reachable_consistent: "consistent (snd (run history (empty_cache window)))"
proof -
  obtain rs c where "run history (empty_cache window) = (rs, c)"
    by (cases "run history (empty_cache window)")
  with consistent_run [OF consistent_empty this] show ?thesis by simp
qed

lemma deduplicate_pending:
  assumes "entries c K = Some (Pending h)"
  shows "deduplicate now K c = (Awaits h, c)"
  using assms by (simp add: deduplicate_def)

lemma deduplicate_live:
  assumes "entries c K = Some (Fulfilled v expiresAt)" and "now < expiresAt"
  shows "deduplicate now K c = (Cached v, c)"
  using assms by (simp add: deduplicate_def)

lemma deduplicate_vacant:
  assumes "vacant now K c"
  shows "deduplicate now K c = start K c"
  using assms by (simp add: deduplicate_def vacant_def split: option.splits CacheEntry.splits)

lemma producer_runs_start:
  "producer_runs K (snd (start key c)) = (if key = K then Suc (producer_runs K c) else producer_runs K c)"
  by (simp add: producer_runs_def start_changed)

lemma deduplicate_other:
  assumes "key \<noteq> K" and "deduplicate now key c = (r, c')"
  shows "entries c' K = entries c K \<and> producer_runs K c' = producer_runs K c"
proof -
  from assms(2) have "c' = c \<or> c' = snd (start key c)"
    by (auto simp: deduplicate_def split: option.splits CacheEntry.splits if_splits)
  with assms(1) show ?thesis
    by (auto simp: start_changed producer_runs_start)
qed

lemma settle_outcome:
  assumes "h < length (computations c)" and "snd (computations c ! h) = None"
  shows "outcome_of (settle now h result c) (Awaits h) = Some result"
  using assms by (simp add: settle_def outcome_of_def Let_def)

lemma settle_runs: "producer_runs key (settle now h result c) = producer_runs key c"
proof (cases "h < length (computations c) \<and> snd (computations c ! h) = None")
  case False
  then show ?thesis by (simp add: settle_unchanged)
next
  case True
  then obtain K where h: "h < length (computations c)" "computations c ! h = (K, None)"
    by (cases "computations c ! h") auto
  have "map fst ((computations c)[h := (K, Some result)]) = (map fst (computations c))[h := K]"
    by (simp add: map_update)
  also have "\<dots> = map fst (computations c)"
    using h by (simp add: list_update_same_conv)
  finally have "map fst ((computations c)[h := (K, Some result)]) = map fst (computations c)" .
  then have "length (filter (\<lambda>k. k = key) (map fst ((computations c)[h := (K, Some result)])))
           = length (filter (\<lambda>k. k = key) (map fst (computations c)))"
    by simp
  then have "length (filter (\<lambda>started. fst started = key) ((computations c)[h := (K, Some result)]))
           = length (filter (\<lambda>started. fst started = key) (computations c))"
    by (simp add: filter_map comp_def)
  then show ?thesis
    by (simp add: producer_runs_def settle_changed(1) [OF h])
qed

lemma settle_other_entry:
  assumes con: "consistent c" and other: "\<forall>h'. entries c K = Some (Pending h') \<longrightarrow> h' \<noteq> h"
  shows "entries (settle now h result c) K = entries c K"
proof (cases "h < length (computations c) \<and> snd (computations c ! h) = None")
  case False
  then show ?thesis by (simp add: settle_unchanged)
next
  case True
  then obtain key where h: "h < length (computations c)" "computations c ! h = (key, None)"
    by (cases "computations c ! h") auto
  from consistent_unsettled [OF con h] have "entries c key = Some (Pending h)" .
  with other have "key \<noteq> K" by auto
  then show ?thesis
    by (simp add: settle_changed(2) [OF h] split: sum.splits)
qed

lemma step_pending:
  assumes con: "consistent c" and pend: "entries c K = Some (Pending h)"
    and st: "step ev c = (r, c')" and ns: "\<not> settles h ev"
  shows "entries c' K = Some (Pending h) \<and> producer_runs K c' = producer_runs K c
       \<and> (calls_key K ev \<longrightarrow> r = Some (Awaits h))"
proof (cases ev)
  case (Call now key)
  show ?thesis
  proof (cases "key = K")
    case True
    with st Call deduplicate_pending [OF pend, of now] pend show ?thesis
      by (simp add: calls_key_def)
  next
    case False
    obtain r' where "deduplicate now key c = (r', c')"
      using st Call by (auto split: prod.splits)
    from deduplicate_other [OF False this] pend False Call show ?thesis
      by (simp add: calls_key_def)
  qed
next
  case (Settle now h' result)
  with ns have "h' \<noteq> h" by (simp add: settles_def)
  with pend have "\<forall>h''. entries c K = Some (Pending h'') \<longrightarrow> h'' \<noteq> h'" by auto
  from settle_other_entry [OF con this]
  have same: "entries (settle now h' result c) K = entries c K" .
  from st Settle have c': "c' = settle now h' result c" by simp
  show ?thesis
    unfolding c' using same pend Settle by (simp add: settle_runs calls_key_def)
qed

lemma step_live:
  assumes con: "consistent c" and live: "entries c K = Some (Fulfilled v expiresAt)"
    and st: "step ev c = (r, c')" and win: "calls_key K ev \<longrightarrow> event_time ev < expiresAt"
  shows "entries c' K = Some (Fulfilled v expiresAt) \<and> producer_runs K c' = producer_runs K c
       \<and> (calls_key K ev \<longrightarrow> r = Some (Cached v))"
proof (cases ev)
  case (Call now key)
  show ?thesis
  proof (cases "key = K")
    case True
    with win Call have "now < expiresAt" by (simp add: calls_key_def event_time_def)
    from deduplicate_live [OF live this] st Call True live show ?thesis
      by (simp add: calls_key_def)
  next
    case False
    obtain r' where "deduplicate now key c = (r', c')"
      using st Call by (auto split: prod.splits)
    from deduplicate_other [OF False this] live False Call show ?thesis
      by (simp add: calls_key_def)
  qed
next
  case (Settle now h' result)
  from live have "\<forall>h''. entries c K = Some (Pending h'') \<longrightarrow> h'' \<noteq> h'" by simp
  from settle_other_entry [OF con this]
  have same: "entries (settle now h' result c) K = entries c K" .
  from st Settle have c': "c' = settle now h' result c" by simp
  show ?thesis
    unfolding c' using same live Settle by (simp add: settle_runs calls_key_def)
qed

lemma run_pending:
  assumes "consistent c" and "entries c K = Some (Pending h)" and "run evs c = (rs, c')"
    and "\<forall>ev \<in> set evs. \<not> settles h ev"
  shows "entries c' K = Some (Pending h) \<and> producer_runs K c' = producer_runs K c
       \<and> (\<forall>i < length evs. calls_key K (evs ! i) \<longrightarrow> rs ! i = Some (Awaits h))"
  using assms
proof (induction evs arbitrary: c rs)
  case Nil
  then show ?case by simp
next
  case (Cons ev evs)
  from Cons.prems(3) obtain r c1 rs1 where
    st: "step ev c = (r, c1)" and rest: "run evs c1 = (rs1, c')" and rs: "rs = r # rs1"
    unfolding run_Cons by blast
  from Cons.prems(4) have ns: "\<not> settles h ev" and ns': "\<forall>ev \<in> set evs. \<not> settles h ev"
    by simp_all
  note one = step_pending [OF Cons.prems(1,2) st ns]
  note ih = Cons.IH [OF consistent_step [OF Cons.prems(1) st] conjunct1 [OF one] rest ns']
  have "\<forall>i < length (ev # evs). calls_key K ((ev # evs) ! i) \<longrightarrow> rs ! i = Some (Awaits h)"
  proof (intro allI impI)
    fix i assume "i < length (ev # evs)" and "calls_key K ((ev # evs) ! i)"
    then show "rs ! i = Some (Awaits h)"
      using one ih rs by (cases i) auto
  qed
  with one ih show ?case by simp
qed

lemma run_live:
  assumes "consistent c" and "entries c K = Some (Fulfilled v expiresAt)"
    and "run evs c = (rs, c')"
    and "\<forall>ev \<in> set evs. calls_key K ev \<longrightarrow> event_time ev < expiresAt"
  shows "entries c' K = Some (Fulfilled v expiresAt) \<and> producer_runs K c' = producer_runs K c
       \<and> (\<forall>i < length evs. calls_key K (evs ! i) \<longrightarrow> rs ! i = Some (Cached v))"
  using assms
proof (induction evs arbitrary: c rs)
  case Nil
  then show ?case by simp
next
  case (Cons ev evs)
  from Cons.prems(3) obtain r c1 rs1 where
    st: "step ev c = (r, c1)" and rest: "run evs c1 = (rs1, c')" and rs: "rs = r # rs1"
    unfolding run_Cons by blast
  from Cons.prems(4) have win: "calls_key K ev \<longrightarrow> event_time ev < expiresAt"
    and win': "\<forall>ev \<in> set evs. calls_key K ev \<longrightarrow> event_time ev < expiresAt"
    by simp_all
  note one = step_live [OF Cons.prems(1,2) st win]
  note ih = Cons.IH [OF consistent_step [OF Cons.prems(1) st] conjunct1 [OF one] rest win']
  have "\<forall>i < length (ev # evs). calls_key K ((ev # evs) ! i) \<longrightarrow> rs ! i = Some (Cached v)"
  proof (intro allI impI)
    fix i assume "i < length (ev # evs)" and "calls_key K ((ev # evs) ! i)"
    then show "rs ! i = Some (Cached v)"
      using one ih rs by (cases i) auto
  qed
  with one ih show ?case by simp
qed

lemma sample_first_call:
  "fst (deduplicate 0 ''markPrices'' sample_cache) = Awaits 0"
  "snd (deduplicate 0 ''markPrices'' sample_cache)
     = snd (run [Call 0 ''markPrices''] (empty_cache 10))"
  by (simp_all add: deduplicate_def start_def sample_cache_def empty_cache_def)

lemma sample_shared:
  "fst (run sample_trace (snd (deduplicate 0 ''markPrices'' sample_cache)))
     = [Some (Awaits 0), Some (Awaits 1), None, Some (Awaits 0), Some (Awaits 2)]"
  "computations (snd (run sample_trace (snd (deduplicate 0 ''markPrices'' sample_cache))))
     = [(''markPrices'', None), (''spotBalance_7'', Some (Inl NetworkFailure)),
        (''spotBalance_7'', None)]"
  by (simp_all add: sample_cache_def sample_trace_def deduplicate_def start_def settle_def
      empty_cache_def)

lemma sample_inflight_state:
  "computations sample_inflight
     = [(''markPrices'', None), (''spotBalance_7'', Some (Inl NetworkFailure)),
        (''spotBalance_7'', None)]"
  "ttl sample_inflight = 10"
  by (simp_all add: sample_inflight_def sample_trace_def deduplicate_def start_def settle_def
      empty_cache_def)

lemma sample_reused:
  "fst (run sample_later_trace (settle 6 0 (Inr 42) sample_inflight))
     = [Some (Cached 42), Some (Awaits 3), None, Some (Cached 42), None]"
  "computations (snd (run sample_later_trace (settle 6 0 (Inr 42) sample_inflight)))
     = [(''markPrices'', Some (Inr 42)), (''spotBalance_7'', Some (Inl NetworkFailure)),
        (''spotBalance_7'', Some (Inl NetworkFailure)), (''accountDetails_7'', Some (Inr 7))]"
  by (simp_all add: sample_inflight_def sample_trace_def sample_later_trace_def
      deduplicate_def start_def settle_def empty_cache_def Let_def)

text \<open>
  C4. Let the cache be in a state that calls and settlements reach from the empty cache,
  and let a call of \<^verbatim>\<open>deduplicate\<close> for the key \<open>K\<close> find neither a live result nor a
  computation in flight, so that it invokes the producer. While that computation is
  pending, that is in every trace of events in which it does not settle, whatever calls
  for other keys and whatever settlements of other computations, successes and failures,
  the trace holds beside the calls for \<open>K\<close>: the producer is invoked for \<open>K\<close> exactly once,
  by the first call; every call for \<open>K\<close> is handed the pending result of the first one; and
  when the computation settles, its result, a value or a failure, is what every holder of
  that pending result receives.
\<close>

theorem single_flight:
  assumes reach: "c = snd (run history (empty_cache window))"
    and vac: "vacant now K c"
    and first: "deduplicate now K c = (r, c')"
    and trace: "run evs c' = (rs, c'')"
    and pending: "\<forall>ev \<in> set evs. \<not> settles (length (computations c)) ev"
  shows "r = Awaits (length (computations c))
       \<and> producer_runs K c'' = Suc (producer_runs K c)
       \<and> (\<forall>i < length evs. calls_key K (evs ! i) \<longrightarrow> rs ! i = Some r)
       \<and> (\<forall>later result. outcome_of (settle later (length (computations c)) result c'') r
                            = Some result)"
proof -
  let ?h = "length (computations c)"
  have con: "consistent c"
    unfolding reach by (rule reachable_consistent)
  from first deduplicate_vacant [OF vac] have st: "start K c = (r, c')" by simp
  then have r: "r = Awaits ?h" and c': "c' = snd (start K c)"
    using start_changed(4) [of K c] by (simp_all add: prod_eq_iff)
  from vac have np: "\<forall>h. entries c K \<noteq> Some (Pending h)"
    by (auto simp: vacant_def)
  have con': "consistent c'"
    unfolding c' by (rule consistent_start [OF con np])
  have pend: "entries c' K = Some (Pending ?h)"
    unfolding c' by (simp add: start_changed)
  note p = run_pending [OF con' pend trace pending]
  have con'': "consistent c''"
    by (rule consistent_run [OF con' trace])
  from consistent_pending [OF con'' conjunct1 [OF p]]
  have h: "?h < length (computations c'')" "snd (computations c'' ! ?h) = None"
    by simp_all
  have runs: "producer_runs K c' = Suc (producer_runs K c)"
    unfolding c' by (simp add: producer_runs_start)
  show ?thesis
    using r runs p settle_outcome [OF h] by simp
qed

theorem single_flight_witness:
  "vacant 0 ''markPrices'' sample_cache
   \<and> fst (deduplicate 0 ''markPrices'' sample_cache) = Awaits 0
   \<and> fst (run sample_trace (snd (deduplicate 0 ''markPrices'' sample_cache)))
       = [Some (Awaits 0), Some (Awaits 1), None, Some (Awaits 0), Some (Awaits 2)]
   \<and> producer_runs ''markPrices''
         (snd (run sample_trace (snd (deduplicate 0 ''markPrices'' sample_cache)))) = 1
   \<and> outcome_of
         (settle 6 0 (Inl NetworkFailure)
            (snd (run sample_trace (snd (deduplicate 0 ''markPrices'' sample_cache)))))
         (Awaits 0)
       = Some (Inl NetworkFailure)"
proof -
  let ?first = "deduplicate 0 ''markPrices'' sample_cache"
  let ?rest = "run sample_trace (snd ?first)"
  have reach: "sample_cache = snd (run [] (empty_cache 10))"
    by (simp add: sample_cache_def)
  have vac: "vacant 0 ''markPrices'' sample_cache"
    by (simp add: vacant_def sample_cache_def empty_cache_def)
  have started: "length (computations sample_cache) = 0"
    by (simp add: sample_cache_def empty_cache_def)
  have pending: "\<forall>ev \<in> set sample_trace. \<not> settles (length (computations sample_cache)) ev"
    unfolding started by (simp add: sample_trace_def settles_def)
  note shared = single_flight [OF reach vac prod.collapse [symmetric]
      prod.collapse [symmetric] pending, unfolded started]
  have runs: "producer_runs ''markPrices'' (snd ?rest)
      = Suc (producer_runs ''markPrices'' sample_cache)"
    using shared by blast
  have outcome: "outcome_of (settle 6 0 (Inl NetworkFailure) (snd ?rest)) (fst ?first)
      = Some (Inl NetworkFailure)"
    using shared by blast
  have none: "producer_runs ''markPrices'' sample_cache = 0"
    by (simp add: producer_runs_def sample_cache_def empty_cache_def)
  from vac runs outcome show ?thesis
    by (simp add: none sample_first_call(1) sample_shared(1))
qed

text \<open>
  C5. Let the cache be in a state that calls and settlements reach from the empty cache,
  with a computation for the key \<open>K\<close> in flight, and let that computation succeed at the
  time \<open>finished\<close> with the value \<open>v\<close>. The entry stored for \<open>K\<close> holds \<open>v\<close> with the expiry
  timestamp \<open>finished + ttl\<close>. In every trace of events that follows, whatever calls for
  other keys and whatever settlements, successes and failures, it holds, every call for
  \<open>K\<close> before that timestamp returns the stored value \<open>v\<close>, and the producer is not invoked
  for \<open>K\<close> again. The events are the calls and the settlements; the interface of section
  4.1 has no operation that invalidates an entry.
\<close>

theorem reuse_within_ttl:
  assumes reach: "c = snd (run history (empty_cache window))"
    and inflight: "h < length (computations c)" "computations c ! h = (K, None)"
    and trace: "run evs (settle finished h (Inr v) c) = (rs, c')"
    and within: "\<forall>ev \<in> set evs. calls_key K ev \<longrightarrow> event_time ev < finished + ttl c"
  shows "entries (settle finished h (Inr v) c) K = Some (Fulfilled v (finished + ttl c))
       \<and> (\<forall>i < length evs. calls_key K (evs ! i) \<longrightarrow> rs ! i = Some (Cached v))
       \<and> producer_runs K c' = producer_runs K c"
proof -
  let ?stored = "settle finished h (Inr v) c"
  have con: "consistent ?stored"
    unfolding reach by (rule consistent_settle [OF reachable_consistent])
  have e: "entries ?stored K = Some (Fulfilled v (finished + ttl c))"
    by (simp add: settle_changed(2) [OF inflight])
  from run_live [OF con e trace within] e show ?thesis
    by (simp add: settle_runs)
qed

theorem reuse_within_ttl_witness:
  "computations sample_inflight ! 0 = (''markPrices'', None)
   \<and> entries (settle 6 0 (Inr 42) sample_inflight) ''markPrices'' = Some (Fulfilled 42 16)
   \<and> fst (run sample_later_trace (settle 6 0 (Inr 42) sample_inflight))
       = [Some (Cached 42), Some (Awaits 3), None, Some (Cached 42), None]
   \<and> producer_runs ''markPrices''
         (snd (run sample_later_trace (settle 6 0 (Inr 42) sample_inflight))) = 1"
proof -
  let ?stored = "settle 6 0 (Inr 42) sample_inflight"
  let ?rest = "run sample_later_trace ?stored"
  have reach: "sample_inflight
      = snd (run (Call 0 ''markPrices'' # sample_trace) (empty_cache 10))"
    by (simp add: sample_inflight_def)
  have inflight: "0 < length (computations sample_inflight)"
    "computations sample_inflight ! 0 = (''markPrices'', None)"
    by (simp_all add: sample_inflight_state)
  have within: "\<forall>ev \<in> set sample_later_trace.
      calls_key ''markPrices'' ev \<longrightarrow> event_time ev < 6 + ttl sample_inflight"
    unfolding sample_inflight_state
    by (simp add: sample_later_trace_def calls_key_def event_time_def)
  note reused = reuse_within_ttl [where finished = 6 and v = "42 :: nat",
      OF reach inflight prod.collapse [symmetric] within, unfolded sample_inflight_state]
  have stored: "entries ?stored ''markPrices'' = Some (Fulfilled 42 (6 + 10))"
    using reused by blast
  have runs: "producer_runs ''markPrices'' (snd ?rest)
      = producer_runs ''markPrices'' sample_inflight"
    using reused by blast
  have one: "producer_runs ''markPrices'' sample_inflight = 1"
    by (simp add: producer_runs_def sample_inflight_state)
  from inflight stored runs show ?thesis
    by (simp add: one sample_reused(1))
qed

end
